(* ===== verification/Prelude.thy ===== *)
theory Prelude
  imports Main "HOL-Library.Word" "HOL-Library.RBT" "HOL-Library.List_Lexorder" "HOL-Library.Char_ord"
begin

section \<open>Shared vocabulary of the key/value server development\<close>

text \<open>
  The exceptions of \<open>exceptions.h\<close> with the standard exceptions the code can meet, the
  results of fallible operations, and the small facts about lists and containers that the
  component theories share.

  \<^item> \<open>exn\<close>: every C++ exception object the program throws or lets a library call throw.
    The text of a standard exception is its first words; the library adds numbers.
  \<^item> \<open>failure\<close>: what stops a computation. Besides an exception this is a hardware trap
    (integer division by zero), the signal for a write to a closed connection, or undefined
    behaviour; no \<open>catch\<close> clause sees those.
  \<^item> \<open>'a result\<close>: a failure or a value.
\<close>

named_theorems kv_defs \<open>definitions of the small operations, unfolded together\<close>
named_theorems cm_simps \<open>equations of the connection's sequencing operators\<close>
named_theorems wp \<open>the thread-local check pushed through the sequencing operators\<close>
named_theorems kv_split \<open>split rules for results and replies\<close>

subsection \<open>Exceptions and results\<close>

datatype exn =
    InvalidMessage string
  | CommException string
  | OperationException string
  | FailedTransaction string
  | Runtime_error string
  | Out_of_range string
  | Invalid_argument string

primrec what :: "exn \<Rightarrow> string" where
  "what (InvalidMessage m) = m"
| "what (CommException m) = m"
| "what (OperationException m) = m"
| "what (FailedTransaction m) = m"
| "what (Runtime_error m) = m"
| "what (Out_of_range m) = m"
| "what (Invalid_argument m) = m"

datatype failure =
    Raise exn
  | Sigfpe
  | Sigpipe
  | Undefined_behaviour string

type_synonym 'a result = "failure + 'a"

declare sum.split [kv_split] option.split [kv_split] failure.split [kv_split]

subsection \<open>Containers\<close>

text \<open>
  \<open>std::map<std::string, V>\<close> is a balanced search tree ordered by the lexicographic order
  on strings; the library's red-black trees are used for it. \<open>RBT.lookup\<close>,
  \<open>RBT.insert\<close> and \<open>RBT.entries\<close> are \<open>find\<close>, assignment through
  \<open>operator[]\<close> and iteration in key order.
\<close>

type_synonym 'v std_map = "(string, 'v) RBT.rbt"

text \<open>Assigning every pair of a list, in order, into a map.\<close>

lemma lookup_fold_insert:
  "RBT.lookup (fold (\<lambda>(k, v) m. RBT.insert k v m) xs m) = RBT.lookup m ++ map_of (rev xs)"
  by (induction xs arbitrary: m) (auto simp: map_add_def fun_eq_iff split: option.splits)

lemma map_of_rev_entries [simp]: "map_of (rev (RBT.entries t)) = RBT.lookup t"
proof -
  have "map_of (rev (RBT.entries t)) = map_of (RBT.entries t)"
    using distinct_entries [of t] by (intro map_of_inject_set [THEN iffD2]) (simp_all add: rev_map [symmetric])
  then show ?thesis by simp
qed

subsection \<open>Lists\<close>

lemma takeWhile_all [simp]: "\<forall>x\<in>set xs. P x \<Longrightarrow> takeWhile P (xs @ y # ys) = xs @ takeWhile P (y # ys)"
  by (induction xs) auto

lemma nth_eq_drop_Cons: "drop i xs = x # ys \<Longrightarrow> i < length xs \<and> xs ! i = x \<and> drop (Suc i) xs = ys"
  by (metis Cons_nth_drop_Suc drop_all linorder_not_less list.inject list.simps(3))

end
