(* ===== verification/Table.thy ===== *)
theory Table
  imports Prelude
begin

section \<open>Tables\<close>

text \<open>
  \<open>table.h\<close> and \<open>table.cpp\<close>: a table is a committed map, a map of uncommitted changes
  and a mutex.

  \<^item> A \<open>pthread_mutex_t\<close> initialised with default attributes is its owner, if any. Locking
    waits while there is one, whoever it is (the default mutex is not recursive); \<open>trylock\<close>
    reports whether it got the mutex; unlocking clears the owner.
  \<^item> An iterator of a \<open>std::map\<close> belongs to its container: it points at a key of it or is
    its end. Two iterators of different containers are never equal, so that the test of
    \<open>Table::get\<close>, which compares an iterator of \<open>tempMap\<close> with the end of
    \<open>theMap\<close>, is evaluated as the compiled code does.
  \<^item> \<open>operator[]\<close> inserts an empty string for a key that is not there, also when it is
    only read.

  The abstract table has a value for every key (\<open>committed\<close>, empty where nothing was stored)
  and an overlay of uncommitted writes (\<open>pending\<close>). The locale \<open>overlay_store\<close> is the
  interface of such a store; its laws are proved for the table at the end.
\<close>

type_synonym cid = nat
type_synonym mutex = "cid option"

subsection \<open>Mutexes\<close>

definition mutex_lock :: "cid \<Rightarrow> mutex \<Rightarrow> mutex option" where
  "mutex_lock i m = (case m of None \<Rightarrow> Some (Some i) | Some _ \<Rightarrow> None)"

definition mutex_trylock :: "cid \<Rightarrow> mutex \<Rightarrow> bool \<times> mutex" where
  "mutex_trylock i m = (case m of None \<Rightarrow> (True, Some i) | Some _ \<Rightarrow> (False, m))"

definition mutex_unlock :: "mutex \<Rightarrow> mutex" where
  "mutex_unlock m = None"

subsection \<open>Iterators and element access of \<open>std::map\<close>\<close>

datatype container = The_map | Temp_map

datatype iterator = It_at container string | It_end container

definition map_find :: "container \<Rightarrow> string std_map \<Rightarrow> string \<Rightarrow> iterator" where
  "map_find c m k = (if RBT.lookup m k = None then It_end c else It_at c k)"

definition map_index :: "string std_map \<Rightarrow> string \<Rightarrow> string \<times> string std_map" where
  "map_index m k =
     (case RBT.lookup m k of Some v \<Rightarrow> (v, m) | None \<Rightarrow> ([], RBT.insert k [] m))"

subsection \<open>The class\<close>

record table =
  m_name :: string
  theMap :: "string std_map"
  tempMap :: "string std_map"
  m_mutex :: mutex

definition new_table :: "string \<Rightarrow> table" where
  "new_table name = \<lparr>m_name = name, theMap = RBT.empty, tempMap = RBT.empty, m_mutex = None\<rparr>"

definition get_name :: "table \<Rightarrow> string" where
  "get_name t = m_name t"

definition table_lock :: "cid \<Rightarrow> table \<Rightarrow> table option" where
  "table_lock i t = map_option (\<lambda>m. t\<lparr>m_mutex := m\<rparr>) (mutex_lock i (m_mutex t))"

definition table_unlock :: "table \<Rightarrow> table" where
  "table_unlock t = t\<lparr>m_mutex := mutex_unlock (m_mutex t)\<rparr>"

definition table_trylock :: "cid \<Rightarrow> table \<Rightarrow> bool \<times> table" where
  "table_trylock i t = (case mutex_trylock i (m_mutex t) of (r, m) \<Rightarrow> (r, t\<lparr>m_mutex := m\<rparr>))"

definition table_set :: "string \<Rightarrow> string \<Rightarrow> table \<Rightarrow> table" where
  "table_set k v t = t\<lparr>tempMap := RBT.insert k v (tempMap t)\<rparr>"

definition table_get :: "string \<Rightarrow> table \<Rightarrow> string result \<times> table" where
  "table_get k t =
     (let doesKeyExist1 = map_find The_map (theMap t) k;
          doesKeyExist2 = map_find Temp_map (tempMap t) k
      in if doesKeyExist1 = It_end The_map \<and> doesKeyExist2 = It_end The_map
         then (Inl (Raise (Runtime_error ''no key in table'')), t)
         else if doesKeyExist2 = It_end Temp_map
         then (case map_index (theMap t) k of (v, m) \<Rightarrow> (Inr v, t\<lparr>theMap := m\<rparr>))
         else (case map_index (tempMap t) k of (v, m) \<Rightarrow> (Inr v, t\<lparr>tempMap := m\<rparr>)))"

definition has_key :: "string \<Rightarrow> table \<Rightarrow> bool" where
  "has_key k t =
     (if map_find The_map (theMap t) k = It_end The_map \<and> map_find Temp_map (tempMap t) k = It_end Temp_map
      then False else True)"

definition commit_changes :: "table \<Rightarrow> table" where
  "commit_changes t =
     t\<lparr>theMap := fold (\<lambda>(k, v) m. RBT.insert k v m) (RBT.entries (tempMap t)) (theMap t),
       tempMap := RBT.empty\<rparr>"

definition rollback_changes :: "table \<Rightarrow> table" where
  "rollback_changes t = t\<lparr>tempMap := RBT.empty\<rparr>"

subsection \<open>The abstract table\<close>

definition committed :: "table \<Rightarrow> string \<Rightarrow> string" where
  "committed t k = (case RBT.lookup (theMap t) k of None \<Rightarrow> [] | Some v \<Rightarrow> v)"

definition pending :: "table \<Rightarrow> string \<rightharpoonup> string" where
  "pending t = RBT.lookup (tempMap t)"

definition overlay :: "('k \<Rightarrow> 'v) \<Rightarrow> ('k \<rightharpoonup> 'v) \<Rightarrow> 'k \<Rightarrow> 'v" where
  "overlay f p k = (case p k of None \<Rightarrow> f k | Some v \<Rightarrow> v)"

lemma overlay_empty [simp]: "overlay f Map.empty = f"
  by (simp add: overlay_def fun_eq_iff)

lemma overlay_upd: "overlay f (p(k \<mapsto> v)) = (overlay f p)(k := v)"
  by (simp add: overlay_def fun_eq_iff)

subsection \<open>Each operation on the abstract table\<close>

lemma new_table_abs [simp]:
  "committed (new_table n) = (\<lambda>_. [])" "pending (new_table n) = Map.empty" "m_mutex (new_table n) = None"
  "m_name (new_table n) = n"
  by (simp_all add: committed_def pending_def new_table_def fun_eq_iff)

lemma table_set_abs [simp]:
  "committed (table_set k v t) = committed t" "pending (table_set k v t) = (pending t)(k \<mapsto> v)"
  "m_mutex (table_set k v t) = m_mutex t" "m_name (table_set k v t) = m_name t"
  by (simp_all add: committed_def pending_def table_set_def fun_eq_iff)

lemma table_get_result: "fst (table_get k t) = Inr (overlay (committed t) (pending t) k)"
  by (auto simp: table_get_def map_find_def map_index_def overlay_def committed_def pending_def Let_def
      split: option.splits)

lemma table_get_abs [simp]:
  "committed (snd (table_get k t)) = committed t" "pending (snd (table_get k t)) = pending t"
  "m_mutex (snd (table_get k t)) = m_mutex t" "m_name (snd (table_get k t)) = m_name t"
  by (auto simp: table_get_def map_find_def map_index_def committed_def pending_def Let_def fun_eq_iff
      split: option.splits)

lemma commit_changes_abs [simp]:
  "committed (commit_changes t) = overlay (committed t) (pending t)"
  "pending (commit_changes t) = Map.empty"
  "m_mutex (commit_changes t) = m_mutex t" "m_name (commit_changes t) = m_name t"
  by (auto simp: committed_def pending_def commit_changes_def overlay_def lookup_fold_insert map_add_def
      fun_eq_iff split: option.splits)

lemma rollback_changes_abs [simp]:
  "committed (rollback_changes t) = committed t" "pending (rollback_changes t) = Map.empty"
  "m_mutex (rollback_changes t) = m_mutex t" "m_name (rollback_changes t) = m_name t"
  by (simp_all add: committed_def pending_def rollback_changes_def fun_eq_iff)

lemma table_mutex_update_abs [simp]:
  "committed (t\<lparr>m_mutex := m\<rparr>) = committed t" "pending (t\<lparr>m_mutex := m\<rparr>) = pending t"
  by (simp_all add: committed_def pending_def fun_eq_iff)

lemma table_unlock_abs [simp]:
  "committed (table_unlock t) = committed t" "pending (table_unlock t) = pending t"
  "m_mutex (table_unlock t) = None" "m_name (table_unlock t) = m_name t"
  by (simp_all add: table_unlock_def mutex_unlock_def)

lemma table_lock_iff: "table_lock i t = Some t' \<longleftrightarrow> m_mutex t = None \<and> t' = t\<lparr>m_mutex := Some i\<rparr>"
  by (auto simp: table_lock_def mutex_lock_def split: option.splits)

lemma table_lock_None: "table_lock i t = None \<longleftrightarrow> m_mutex t \<noteq> None"
  by (auto simp: table_lock_def mutex_lock_def split: option.splits)

lemma table_trylock_eq:
  "table_trylock i t = (if m_mutex t = None then (True, t\<lparr>m_mutex := Some i\<rparr>) else (False, t))"
  by (auto simp: table_trylock_def mutex_trylock_def split: option.splits)

lemma has_key_iff: "has_key k t \<longleftrightarrow> RBT.lookup (theMap t) k \<noteq> None \<or> RBT.lookup (tempMap t) k \<noteq> None"
  by (auto simp: has_key_def map_find_def)

subsection \<open>The interface of a store with an overlay of pending writes\<close>

datatype ('k, 'v) store_op = Read 'k | Write 'k 'v

text \<open>The writes of a list of operations, a later one to the same key winning.\<close>

primrec writes :: "('k, 'v) store_op list \<Rightarrow> 'k \<rightharpoonup> 'v" where
  "writes [] = Map.empty"
| "writes (x # xs) = (case x of Read _ \<Rightarrow> writes xs | Write k v \<Rightarrow> [k \<mapsto> v] ++ writes xs)"

locale overlay_store =
  fixes rd :: "'k \<Rightarrow> 's \<Rightarrow> ('e + 'v) \<times> 's"
    and wr :: "'k \<Rightarrow> 'v \<Rightarrow> 's \<Rightarrow> 's"
    and commit :: "'s \<Rightarrow> 's"
    and rollback :: "'s \<Rightarrow> 's"
    and base :: "'s \<Rightarrow> 'k \<Rightarrow> 'v"
    and over :: "'s \<Rightarrow> 'k \<rightharpoonup> 'v"
  assumes rd_value: "fst (rd k s) = Inr (overlay (base s) (over s) k)"
    and rd_base: "base (snd (rd k s)) = base s"
    and rd_over: "over (snd (rd k s)) = over s"
    and wr_base: "base (wr k v s) = base s"
    and wr_over: "over (wr k v s) = (over s)(k \<mapsto> v)"
    and commit_base: "base (commit s) = overlay (base s) (over s)"
    and commit_over: "over (commit s) = Map.empty"
    and rollback_base: "base (rollback s) = base s"
    and rollback_over: "over (rollback s) = Map.empty"
begin

lemmas laws = rd_value rd_base rd_over wr_base wr_over commit_base commit_over rollback_base rollback_over

primrec apply_op :: "('k, 'v) store_op \<Rightarrow> 's \<Rightarrow> 's" where
  "apply_op (Read k) s = snd (rd k s)"
| "apply_op (Write k v) s = wr k v s"

lemma base_apply_op: "base (apply_op x s) = base s"
  by (cases x) (simp_all add: laws)

lemma run_base: "base (fold apply_op xs s) = base s"
  by (induction xs arbitrary: s) (simp_all add: base_apply_op)

lemma run_over: "over (fold apply_op xs s) = over s ++ writes xs"
proof (induction xs arbitrary: s)
  case Nil
  then show ?case by simp
next
  case (Cons x xs)
  have "over (apply_op x s) ++ writes xs = over s ++ writes (x # xs)"
    by (cases x) (auto simp: laws map_add_def fun_eq_iff split: option.splits)
  with Cons.IH [of "apply_op x s"] show ?case by simp
qed

lemma read_own_write: "fst (rd k (wr k' v s)) = (if k = k' then Inr v else fst (rd k s))"
  by (simp add: laws overlay_def)

lemma rollback_run:
  "base (rollback (fold apply_op xs s)) = base s \<and> over (rollback (fold apply_op xs s)) = Map.empty"
  by (simp add: laws run_base)

lemma commit_run:
  "over s = Map.empty \<Longrightarrow> base (commit (fold apply_op xs s)) = overlay (base s) (writes xs)"
  by (simp add: laws run_base run_over)

end

interpretation tbl: overlay_store table_get table_set commit_changes rollback_changes committed pending
  by unfold_locales (simp_all add: table_get_result)

primrec table_op :: "(string, string) store_op \<Rightarrow> table \<Rightarrow> table" where
  "table_op (Read k) t = snd (table_get k t)"
| "table_op (Write k v) t = table_set k v t"

lemma table_op_eq: "table_op = tbl.apply_op"
proof (rule ext)+
  show "table_op x t = tbl.apply_op x t" for x t by (cases x) simp_all
qed

subsection \<open>Properties\<close>



text \<open>C30. Reading returns the last uncommitted write of the key, else its committed value, and
  the empty string for a key that was never written: the exception for a missing key in the
  source is never thrown.\<close>
theorem table_get_value:
  "fst (table_get k t) =
     Inr (case pending t k of Some v \<Rightarrow> v | None \<Rightarrow> (case RBT.lookup (theMap t) k of Some v \<Rightarrow> v | None \<Rightarrow> []))"
  by (simp add: table_get_result overlay_def committed_def split: option.splits)

text \<open>Reading a missing key creates it: it is in the table afterwards, with the empty string,
  also when the changes are rolled back.\<close>
lemma table_get_creates:
  assumes "\<not> has_key k t"
  shows "has_key k (rollback_changes (snd (table_get k t))) \<and>
    committed (rollback_changes (snd (table_get k t))) k = []"
  using assms
  by (auto simp: has_key_iff table_get_def map_find_def map_index_def Let_def rollback_changes_def
      committed_def split: option.splits)

lemma table_get_creates_witness:
  "\<not> has_key ''k'' (new_table ''t'') \<and>
   has_key ''k'' (rollback_changes (snd (table_get ''k'' (new_table ''t''))))"
proof -
  have "\<not> has_key ''k'' (new_table ''t'')" by (simp add: has_key_iff new_table_def)
  then show ?thesis using table_get_creates by blast
qed

end
