(* ===== verification/Threads.thy ===== *)
theory Threads
  imports Prelude
begin

section \<open>Threads as programs of atomic actions\<close>

text \<open>
  The worker threads of the server share tables and mutexes. What a thread does is a program
  of atomic actions on the shared state: \<open>Act a k\<close> performs \<open>a\<close> and goes on with the reply,
  \<open>Ret x\<close> is finished. The same program is run alone (\<open>run\<close>) or interleaved with others
  (theory \<open>Concurrency\<close>), one action at a time.

  An action can also wait (\<open>Blocked\<close>, a mutex that is taken) or be an access that has no
  defined result (\<open>Fault\<close>). \<open>safe\<close> is a thread-local check of a program: every action is
  allowed in the ghost state in which it is reached, whatever the replies, and the result
  satisfies a postcondition. The locale \<open>thread_logic\<close> states what a shared state owes to this
  check, and proves that checked programs never fault, alone or with any other thread between
  any two of their actions.
\<close>

datatype ('act, 'rep, 'a) prog =
    Ret 'a
  | Act 'act "'rep \<Rightarrow> ('act, 'rep, 'a) prog"

datatype ('rep, 's) outcome = Next 'rep 's | Blocked | Fault

primrec bind_prog :: "('act, 'rep, 'a) prog \<Rightarrow> ('a \<Rightarrow> ('act, 'rep, 'b) prog) \<Rightarrow> ('act, 'rep, 'b) prog" where
  "bind_prog (Ret x) f = f x"
| "bind_prog (Act a k) f = Act a (\<lambda>r. bind_prog (k r) f)"

datatype ('a, 's) run_result = Finished 'a 's | Waiting | Faulted

primrec run :: "('act \<Rightarrow> 's \<Rightarrow> ('rep, 's) outcome) \<Rightarrow> ('act, 'rep, 'a) prog \<Rightarrow> 's \<Rightarrow> ('a, 's) run_result" where
  "run ex (Ret x) s = Finished x s"
| "run ex (Act a k) s =
     (case ex a s of Next r s' \<Rightarrow> run ex (k r) s' | Blocked \<Rightarrow> Waiting | Fault \<Rightarrow> Faulted)"

lemma run_bind:
  "run ex (bind_prog p f) s =
    (case run ex p s of Finished x s' \<Rightarrow> run ex (f x) s' | Waiting \<Rightarrow> Waiting | Faulted \<Rightarrow> Faulted)"
  by (induction p arbitrary: s) (auto split: outcome.splits)

lemma bind_Ret [simp]: "bind_prog p Ret = p"
  by (induction p) auto

lemma bind_assoc: "bind_prog (bind_prog p f) g = bind_prog p (\<lambda>x. bind_prog (f x) g)"
  by (induction p) auto

subsection \<open>The thread-local check\<close>

primrec safe_by ::
  "('act \<Rightarrow> 'h \<Rightarrow> bool) \<Rightarrow> ('act \<Rightarrow> 'rep \<Rightarrow> 'h \<Rightarrow> bool) \<Rightarrow> ('act \<Rightarrow> 'rep \<Rightarrow> 'h \<Rightarrow> 'h) \<Rightarrow>
   ('act, 'rep, 'a) prog \<Rightarrow> 'h \<Rightarrow> ('a \<Rightarrow> 'h \<Rightarrow> bool) \<Rightarrow> bool" where
  "safe_by al an af (Ret x) h Q = Q x h"
| "safe_by al an af (Act a k) h Q =
     (al a h \<and> (\<forall>r. an a r h \<longrightarrow> safe_by al an af (k r) (af a r h) Q))"

lemma safe_bind:
  "safe_by al an af (bind_prog p f) h Q =
   safe_by al an af p h (\<lambda>x h'. safe_by al an af (f x) h' Q)"
  by (induction p arbitrary: h) auto

lemma safe_mono:
  "safe_by al an af p h Q \<Longrightarrow> (\<And>x h. Q x h \<Longrightarrow> Q' x h) \<Longrightarrow> safe_by al an af p h Q'"
  by (induction p arbitrary: h) auto

locale thread_logic =
  fixes ex :: "'i \<Rightarrow> 'act \<Rightarrow> 's \<Rightarrow> ('rep, 's) outcome"
    and allowed :: "'act \<Rightarrow> 'h \<Rightarrow> bool"
    and answers :: "'act \<Rightarrow> 'rep \<Rightarrow> 'h \<Rightarrow> bool"
    and after :: "'act \<Rightarrow> 'rep \<Rightarrow> 'h \<Rightarrow> 'h"
    and agrees :: "'i \<Rightarrow> 's \<Rightarrow> 'h \<Rightarrow> bool"
    and sinv :: "'s \<Rightarrow> bool"
  assumes no_fault: "sinv s \<Longrightarrow> agrees i s h \<Longrightarrow> allowed a h \<Longrightarrow> ex i a s \<noteq> Fault"
    and next_sound: "sinv s \<Longrightarrow> agrees i s h \<Longrightarrow> allowed a h \<Longrightarrow> ex i a s = Next r s' \<Longrightarrow>
      answers a r h \<and> sinv s' \<and> agrees i s' (after a r h)"
    and next_frame: "sinv s \<Longrightarrow> agrees i s h \<Longrightarrow> allowed a h \<Longrightarrow> ex i a s = Next r s' \<Longrightarrow>
      j \<noteq> i \<Longrightarrow> agrees j s h' \<Longrightarrow> agrees j s' h'"
begin

abbreviation safe :: "('act, 'rep, 'a) prog \<Rightarrow> 'h \<Rightarrow> ('a \<Rightarrow> 'h \<Rightarrow> bool) \<Rightarrow> bool" where
  "safe \<equiv> safe_by allowed answers after"

text \<open>One action of a checked program: it does not fault, and the rest stays checked.\<close>

lemma safe_step:
  assumes "safe (Act a k) h Q" and "sinv s" and "agrees i s h"
  shows "ex i a s \<noteq> Fault"
    and "ex i a s = Next r s' \<Longrightarrow> safe (k r) (after a r h) Q \<and> sinv s' \<and> agrees i s' (after a r h)"
    and "ex i a s = Next r s' \<Longrightarrow> j \<noteq> i \<Longrightarrow> agrees j s h' \<Longrightarrow> agrees j s' h'"
proof -
  from assms(1) have al: "allowed a h" and k: "\<And>r. answers a r h \<Longrightarrow> safe (k r) (after a r h) Q" by auto
  show "ex i a s \<noteq> Fault" using no_fault [OF assms(2,3) al] .
  show "ex i a s = Next r s' \<Longrightarrow> safe (k r) (after a r h) Q \<and> sinv s' \<and> agrees i s' (after a r h)"
    using next_sound [OF assms(2,3) al] k by blast
  show "ex i a s = Next r s' \<Longrightarrow> j \<noteq> i \<Longrightarrow> agrees j s h' \<Longrightarrow> agrees j s' h'"
    using next_frame [OF assms(2,3) al] by blast
qed

lemma run_safe:
  "safe p h Q \<Longrightarrow> sinv s \<Longrightarrow> agrees i s h \<Longrightarrow>
   (case run (ex i) p s of
      Finished x s' \<Rightarrow> sinv s' \<and> (\<exists>h'. Q x h' \<and> agrees i s' h')
    | Waiting \<Rightarrow> True
    | Faulted \<Rightarrow> False)"
proof (induction p arbitrary: h s)
  case (Ret x)
  then show ?case by auto
next
  case (Act a k)
  show ?case
  proof (cases "ex i a s")
    case (Next r s')
    with Act.prems have "safe (k r) (after a r h) Q" "sinv s'" "agrees i s' (after a r h)"
      using safe_step(2) by blast+
    with Act.IH Next show ?thesis by simp
  next
    case Fault
    with Act.prems safe_step(1) show ?thesis by blast
  qed simp
qed

lemma run_frame:
  "safe p h Q \<Longrightarrow> sinv s \<Longrightarrow> agrees i s h \<Longrightarrow> run (ex i) p s = Finished x s' \<Longrightarrow>
   j \<noteq> i \<Longrightarrow> agrees j s h' \<Longrightarrow> agrees j s' h'"
proof (induction p arbitrary: h s)
  case (Ret y)
  then show ?case by auto
next
  case (Act a k)
  from Act.prems(4) obtain r t where n: "ex i a s = Next r t" and "run (ex i) (k r) t = Finished x s'"
    by (auto split: outcome.splits)
  moreover have "safe (k r) (after a r h) Q" "sinv t" "agrees i t (after a r h)" "agrees j t h'"
    using Act.prems safe_step(2,3) [OF _ _ _ n] by blast+
  ultimately show ?case using Act.IH [OF rangeI] Act.prems(5) by blast
qed

end

end
