(* ===== verification/Server.thy ===== *)
theory Server
  imports Table Threads
begin

section \<open>The server's shared state\<close>

text \<open>
  The \<open>Server\<close> class (\<open>server.h\<close>, \<open>server.cpp\<close>) and the tables it has created.
  A \<open>Table*\<close> is an address of \<open>heap\<close>; \<open>new Table\<close> takes the next one, and tables are
  never deleted. The atomic actions of a worker thread on this state are the operations on the
  two kinds of mutex, the two accesses to the map of tables and the operations of a table.

  Ownership: \<open>holds i s\<close> are the mutexes thread \<open>i\<close> has locked. The ghost state of a thread is
  what it holds, the table addresses it knows and the tables it may have changed; \<open>allowed\<close> is the locking discipline the
  source promises in the comment of \<open>table.h\<close> and in the README: the map of tables is touched
  under \<open>tables_mutex\<close> only, a table under its own mutex only, a mutex is unlocked by its
  holder, a table only after its changes were committed or rolled back, and \<open>tables_mutex\<close> is never held while waiting for another mutex.
\<close>

type_synonym tid = nat

record server =
  server_tables :: "tid std_map"
  tables_mutex :: mutex
  heap :: "tid \<Rightarrow> table option"
  next_addr :: tid

definition new_server :: server where
  "new_server = \<lparr>server_tables = RBT.empty, tables_mutex = None, heap = Map.empty, next_addr = 0\<rparr>"

datatype action =
    Lock_tables | Unlock_tables | Find_name string | New_table string
  | Lock_table tid | Trylock_table tid | Unlock_table tid
  | Get tid string | Put tid string string | Commit tid | Rollback tid

datatype reply = RUnit | RBool bool | RPtr "tid option" | RStr "string result"

type_synonym 'a thread_prog = "(action, reply, 'a) prog"

definition on_table :: "tid \<Rightarrow> (table \<Rightarrow> reply \<times> table) \<Rightarrow> server \<Rightarrow> (reply, server) outcome" where
  "on_table t f s =
     (case heap s t of None \<Rightarrow> Fault
      | Some tb \<Rightarrow> (case f tb of (r, tb') \<Rightarrow> Next r (s\<lparr>heap := (heap s)(t \<mapsto> tb')\<rparr>)))"

fun exec :: "cid \<Rightarrow> action \<Rightarrow> server \<Rightarrow> (reply, server) outcome" where
  "exec i Lock_tables s =
     (case mutex_lock i (tables_mutex s) of None \<Rightarrow> Blocked
      | Some m \<Rightarrow> Next RUnit (s\<lparr>tables_mutex := m\<rparr>))"
| "exec i Unlock_tables s = Next RUnit (s\<lparr>tables_mutex := mutex_unlock (tables_mutex s)\<rparr>)"
| "exec i (Find_name n) s = Next (RPtr (RBT.lookup (server_tables s) n)) s"
| "exec i (New_table n) s =
     Next RUnit (s\<lparr>server_tables := RBT.insert n (next_addr s) (server_tables s),
       heap := (heap s)(next_addr s \<mapsto> new_table n), next_addr := Suc (next_addr s)\<rparr>)"
| "exec i (Lock_table t) s =
     (case heap s t of None \<Rightarrow> Fault
      | Some tb \<Rightarrow> (case table_lock i tb of None \<Rightarrow> Blocked
          | Some tb' \<Rightarrow> Next RUnit (s\<lparr>heap := (heap s)(t \<mapsto> tb')\<rparr>)))"
| "exec i (Trylock_table t) s =
     on_table t (\<lambda>tb. case table_trylock i tb of (b, tb') \<Rightarrow> (RBool b, tb')) s"
| "exec i (Unlock_table t) s = on_table t (\<lambda>tb. (RUnit, table_unlock tb)) s"
| "exec i (Get t k) s = on_table t (\<lambda>tb. case table_get k tb of (v, tb') \<Rightarrow> (RStr v, tb')) s"
| "exec i (Put t k v) s = on_table t (\<lambda>tb. (RUnit, table_set k v tb)) s"
| "exec i (Commit t) s = on_table t (\<lambda>tb. (RUnit, commit_changes tb)) s"
| "exec i (Rollback t) s = on_table t (\<lambda>tb. (RUnit, rollback_changes tb)) s"

subsection \<open>The operations of the class\<close>

definition create_table :: "string \<Rightarrow> unit thread_prog" where
  "create_table name =
     Act Lock_tables (\<lambda>_. Act (New_table name) (\<lambda>_. Act Unlock_tables (\<lambda>_. Ret ())))"

definition find_table :: "string \<Rightarrow> tid option thread_prog" where
  "find_table name =
     Act Lock_tables (\<lambda>_. Act (Find_name name) (\<lambda>r. Act Unlock_tables (\<lambda>_.
       Ret (case r of RPtr p \<Rightarrow> p | _ \<Rightarrow> None))))"

subsection \<open>Ownership and the locking discipline\<close>

datatype lock_id = Tables_lock | Table_lock tid

fun owner :: "lock_id \<Rightarrow> server \<Rightarrow> mutex" where
  "owner Tables_lock s = tables_mutex s"
| "owner (Table_lock t) s = (case heap s t of None \<Rightarrow> None | Some tb \<Rightarrow> m_mutex tb)"

definition holds :: "cid \<Rightarrow> server \<Rightarrow> lock_id set" where
  "holds i s = {l. owner l s = Some i}"

text \<open>
  What a thread holds, which table addresses it knows, which tables it may have changed, and
  which locks it has lost: it still holds them and will never give them back.
\<close>

type_synonym ghost = "lock_id set \<times> tid set \<times> tid set \<times> lock_id set"

definition MAX_VALUE :: nat where
  "MAX_VALUE = 1018"

fun allowed :: "action \<Rightarrow> ghost \<Rightarrow> bool" where
  "allowed Lock_tables (H, K, D, L) \<longleftrightarrow> Tables_lock \<notin> H"
| "allowed Unlock_tables (H, K, D, L) \<longleftrightarrow> Tables_lock \<in> H"
| "allowed (Find_name n) (H, K, D, L) \<longleftrightarrow> Tables_lock \<in> H"
| "allowed (New_table n) (H, K, D, L) \<longleftrightarrow> Tables_lock \<in> H"
| "allowed (Lock_table t) (H, K, D, L) \<longleftrightarrow> t \<in> K \<and> H \<subseteq> L"
| "allowed (Trylock_table t) (H, K, D, L) \<longleftrightarrow> t \<in> K"
| "allowed (Unlock_table t) (H, K, D, L) \<longleftrightarrow> t \<in> K \<and> Table_lock t \<in> H \<and> t \<notin> D \<and> Table_lock t \<notin> L"
| "allowed (Get t k) (H, K, D, L) \<longleftrightarrow> t \<in> K \<and> Table_lock t \<in> H"
| "allowed (Put t k v) (H, K, D, L) \<longleftrightarrow> t \<in> K \<and> Table_lock t \<in> H \<and> length v \<le> MAX_VALUE"
| "allowed (Commit t) (H, K, D, L) \<longleftrightarrow> t \<in> K \<and> Table_lock t \<in> H"
| "allowed (Rollback t) (H, K, D, L) \<longleftrightarrow> t \<in> K \<and> Table_lock t \<in> H"

fun answers :: "action \<Rightarrow> reply \<Rightarrow> ghost \<Rightarrow> bool" where
  "answers (Find_name n) r h \<longleftrightarrow> (\<exists>p. r = RPtr p)"
| "answers (Lock_table t) r h \<longleftrightarrow> r = RUnit \<and> Table_lock t \<notin> fst h"
| "answers (Trylock_table t) r h \<longleftrightarrow> r = RBool False \<or> r = RBool True \<and> Table_lock t \<notin> fst h"
| "answers (Get t k) r h \<longleftrightarrow> (\<exists>v. r = RStr (Inr v) \<and> length v \<le> MAX_VALUE)"
| "answers _ r h \<longleftrightarrow> r = RUnit"

fun after :: "action \<Rightarrow> reply \<Rightarrow> ghost \<Rightarrow> ghost" where
  "after Lock_tables r (H, K, D, L) = (insert Tables_lock H, K, D, L)"
| "after Unlock_tables r (H, K, D, L) = (H - {Tables_lock}, K, D, L)"
| "after (Find_name n) r (H, K, D, L) = (H, case r of RPtr (Some t) \<Rightarrow> insert t K | _ \<Rightarrow> K, D, L)"
| "after (New_table n) r (H, K, D, L) = (H, K, D, L)"
| "after (Lock_table t) r (H, K, D, L) = (insert (Table_lock t) H, K, D, L)"
| "after (Trylock_table t) r (H, K, D, L) = (if r = RBool True then insert (Table_lock t) H else H, K, D, L)"
| "after (Unlock_table t) r (H, K, D, L) = (H - {Table_lock t}, K, D, L)"
| "after (Get t k) r (H, K, D, L) = (H, K, D, L)"
| "after (Put t k v) r (H, K, D, L) = (H, K, insert t D, L)"
| "after (Commit t) r (H, K, D, L) = (H, K, D - {t}, L)"
| "after (Rollback t) r (H, K, D, L) = (H, K, D - {t}, L)"

definition short_table :: "table \<Rightarrow> bool" where
  "short_table tb \<longleftrightarrow>
     (\<forall>k. length (committed tb k) \<le> MAX_VALUE) \<and> (\<forall>k v. pending tb k = Some v \<longrightarrow> length v \<le> MAX_VALUE)"

definition server_inv :: "server \<Rightarrow> bool" where
  "server_inv s \<longleftrightarrow>
     (\<forall>n t. RBT.lookup (server_tables s) n = Some t \<longrightarrow> (\<exists>tb. heap s t = Some tb \<and> m_name tb = n)) \<and>
     (\<forall>t. next_addr s \<le> t \<longrightarrow> heap s t = None) \<and>
     (\<forall>t tb. heap s t = Some tb \<longrightarrow> short_table tb \<and> (m_mutex tb = None \<longrightarrow> pending tb = Map.empty))"

definition changed :: "cid \<Rightarrow> server \<Rightarrow> tid set" where
  "changed i s = {t. \<exists>tb. heap s t = Some tb \<and> m_mutex tb = Some i \<and> pending tb \<noteq> Map.empty}"

definition agrees :: "cid \<Rightarrow> server \<Rightarrow> ghost \<Rightarrow> bool" where
  "agrees i s h \<longleftrightarrow>
     (case h of (H, K, D, L) \<Rightarrow> holds i s = H \<and> K \<subseteq> dom (heap s) \<and> changed i s \<subseteq> D \<and>
        L \<subseteq> H \<and> Tables_lock \<notin> L)"

abbreviation safe :: "'a thread_prog \<Rightarrow> ghost \<Rightarrow> ('a \<Rightarrow> ghost \<Rightarrow> bool) \<Rightarrow> bool" where
  "safe \<equiv> safe_by allowed answers after"

lemma server_inv_new [simp]: "server_inv new_server"
  by (simp add: server_inv_def new_server_def)

lemma holds_new [simp]: "holds i new_server = {}"
  by (auto simp: holds_def new_server_def elim!: owner.elims)

lemma short_table_new [simp]: "short_table (new_table n)"
  by (simp add: short_table_def)

lemma short_table_ops:
  assumes "short_table tb"
  shows "short_table (snd (table_get k tb))" "short_table (commit_changes tb)"
    "short_table (rollback_changes tb)" "short_table (table_unlock tb)"
    "short_table (tb\<lparr>m_mutex := m\<rparr>)" "length v \<le> MAX_VALUE \<Longrightarrow> short_table (table_set k v tb)"
  using assms by (auto simp: short_table_def overlay_def split: option.splits)

lemma short_table_get: "short_table tb \<Longrightarrow> length (overlay (committed tb) (pending tb) k) \<le> MAX_VALUE"
  by (auto simp: short_table_def overlay_def split: option.splits)


subsection \<open>Every allowed action respects the discipline\<close>

lemma on_table_Next:
  "on_table t f s = Next r s' \<longleftrightarrow>
   (\<exists>tb tb'. heap s t = Some tb \<and> f tb = (r, tb') \<and> s' = s\<lparr>heap := (heap s)(t \<mapsto> tb')\<rparr>)"
  by (auto simp: on_table_def split: option.splits prod.splits)

lemma exec_Get:
  "exec i (Get t k) s = Next r s' \<longleftrightarrow>
   (\<exists>tb. heap s t = Some tb \<and> r = RStr (fst (table_get k tb)) \<and>
      s' = s\<lparr>heap := (heap s)(t \<mapsto> snd (table_get k tb))\<rparr>)"
proof -
  have "(case table_get k tb of (v, tb') \<Rightarrow> (RStr v, tb')) = (RStr (fst (table_get k tb)), snd (table_get k tb))" for tb
    by (simp split: prod.splits)
  then show ?thesis by (auto simp: on_table_Next)
qed

lemma on_table_not_Blocked [simp]: "on_table t f s \<noteq> Blocked"
  by (auto simp: on_table_def split: option.splits prod.splits)

lemma on_table_Fault: "on_table t f s = Fault \<longleftrightarrow> heap s t = None"
  by (auto simp: on_table_def split: option.splits prod.splits)

lemma owner_heap_upd:
  "heap s t = Some tb \<Longrightarrow>
   owner l (s\<lparr>heap := (heap s)(t \<mapsto> tb')\<rparr>) = (if l = Table_lock t then m_mutex tb' else owner l s)"
  by (cases l) auto

lemma holds_heap_upd:
  "heap s t = Some tb \<Longrightarrow>
   holds i (s\<lparr>heap := (heap s)(t \<mapsto> tb')\<rparr>) =
   (if m_mutex tb' = Some i then insert (Table_lock t) (holds i s) else holds i s - {Table_lock t})"
  unfolding holds_def by (auto simp: owner_heap_upd)

lemma holds_same:
  "heap s t = Some tb \<Longrightarrow> m_mutex tb' = m_mutex tb \<Longrightarrow>
   holds i (s\<lparr>heap := (heap s)(t \<mapsto> tb')\<rparr>) = holds i s"
  unfolding holds_def by (auto simp: owner_heap_upd)

lemma holds_tables:
  "holds i (s\<lparr>tables_mutex := m\<rparr>) =
   (if m = Some i then insert Tables_lock (holds i s) else holds i s - {Tables_lock})"
proof -
  have "owner l (s\<lparr>tables_mutex := m\<rparr>) = (if l = Tables_lock then m else owner l s)" for l
    by (cases l) auto
  then show ?thesis by (auto simp: holds_def)
qed

lemma holds_new_table:
  assumes "heap s (next_addr s) = None"
  shows "holds i (s\<lparr>server_tables := st, heap := (heap s)(next_addr s \<mapsto> new_table n), next_addr := a\<rparr>) = holds i s"
proof -
  have "owner l (s\<lparr>server_tables := st, heap := (heap s)(next_addr s \<mapsto> new_table n), next_addr := a\<rparr>) = owner l s" for l
    using assms by (cases l) auto
  then show ?thesis by (simp add: holds_def)
qed

lemma mem_holds:
  "Tables_lock \<in> holds i s \<longleftrightarrow> tables_mutex s = Some i"
  "heap s t = Some tb \<Longrightarrow> Table_lock t \<in> holds i s \<longleftrightarrow> m_mutex tb = Some i"
  by (simp_all add: holds_def)

lemma changed_heap_upd:
  "heap s t = Some tb \<Longrightarrow>
   changed i (s\<lparr>heap := (heap s)(t \<mapsto> tb')\<rparr>) =
   (if m_mutex tb' = Some i \<and> pending tb' \<noteq> Map.empty then insert t (changed i s) else changed i s - {t})"
  by (auto simp: changed_def)

lemma changed_tables [simp]: "changed i (s\<lparr>tables_mutex := m\<rparr>) = changed i s"
  by (simp add: changed_def)

lemma changed_new_table:
  "heap s (next_addr s) = None \<Longrightarrow>
   changed i (s\<lparr>server_tables := st, heap := (heap s)(next_addr s \<mapsto> new_table n), next_addr := a\<rparr>) = changed i s"
  by (auto simp: changed_def split: if_splits)

lemma mem_changed:
  "heap s t = Some tb \<Longrightarrow> t \<in> changed i s \<longleftrightarrow> m_mutex tb = Some i \<and> pending tb \<noteq> Map.empty"
  by (simp add: changed_def)

lemma server_inv_heap_upd:
  "server_inv s \<Longrightarrow> heap s t = Some tb \<Longrightarrow> short_table tb' \<Longrightarrow>
   m_name tb' = m_name tb \<Longrightarrow> (m_mutex tb' = None \<Longrightarrow> pending tb' = Map.empty) \<Longrightarrow>
   server_inv (s\<lparr>heap := (heap s)(t \<mapsto> tb')\<rparr>)"
  by (fastforce simp: server_inv_def)

lemma server_inv_name:
  "server_inv s \<Longrightarrow> RBT.lookup (server_tables s) n = Some t \<Longrightarrow> \<exists>tb. heap s t = Some tb \<and> m_name tb = n"
  by (simp add: server_inv_def)

lemma server_inv_table:
  "server_inv s \<Longrightarrow> heap s t = Some tb \<Longrightarrow> short_table tb"
  "server_inv s \<Longrightarrow> heap s t = Some tb \<Longrightarrow> m_mutex tb = None \<Longrightarrow> pending tb = Map.empty"
  by (simp_all add: server_inv_def)

lemmas exec_defs = mutex_lock_def mutex_unlock_def table_lock_iff table_lock_None table_trylock_eq

lemmas agrees_simps = agrees_def holds_heap_upd holds_tables holds_new_table mem_holds
  changed_heap_upd changed_new_table mem_changed

lemma exec_no_fault:
  "agrees i s h \<Longrightarrow> allowed a h \<Longrightarrow> exec i a s \<noteq> Fault"
  by (cases h; cases a) (auto simp: agrees_def on_table_Fault split: option.splits)

text \<open>An update of one table by thread \<open>i\<close>: what has to be checked.\<close>

lemma table_update_sound:
  assumes "server_inv s" and "agrees i s (H, K, D, L)" and "heap s t = Some tb" and "short_table tb'"
    and "m_name tb' = m_name tb" and "m_mutex tb' = None \<Longrightarrow> pending tb' = Map.empty"
    and "H' = (if m_mutex tb' = Some i then insert (Table_lock t) H else H - {Table_lock t})"
    and "D - {t} \<subseteq> D'" and "m_mutex tb' = Some i \<Longrightarrow> pending tb' \<noteq> Map.empty \<Longrightarrow> t \<in> D'"
    and "m_mutex tb' \<noteq> Some i \<Longrightarrow> Table_lock t \<notin> L"
  shows "server_inv (s\<lparr>heap := (heap s)(t \<mapsto> tb')\<rparr>) \<and> agrees i (s\<lparr>heap := (heap s)(t \<mapsto> tb')\<rparr>) (H', K, D', L)"
  using assms by (auto simp: agrees_simps intro!: server_inv_heap_upd)

lemma exec_sound:
  assumes "server_inv s" and "agrees i s h" and "allowed a h" and "exec i a s = Next r s'"
  shows "answers a r h \<and> server_inv s' \<and> agrees i s' (after a r h)"
proof -
  obtain H K D L where h: "h = (H, K, D, L)" by (cases h) auto
  note ag = assms(2) [unfolded h]
  have fresh: "heap s (next_addr s) = None" using assms(1) by (simp add: server_inv_def)
  have held: "m_mutex tb = Some i" if "Table_lock t \<in> H" "heap s t = Some tb" for t tb
    using that ag by (auto simp: agrees_def holds_def)
  have free: "Table_lock t \<notin> H" if "heap s t = Some tb" "m_mutex tb = None" for t tb
    using that ag by (auto simp: agrees_def holds_def)
  have clean: "t \<in> D" if "heap s t = Some tb" "m_mutex tb = Some i" "pending tb \<noteq> Map.empty" for t tb
    using that ag by (auto simp: agrees_def changed_def)
  note sh = server_inv_table [OF assms(1)]
  note upd = server_inv_heap_upd [OF assms(1)] table_update_sound [OF assms(1) ag, THEN conjunct2]
  show ?thesis
  proof (cases a)
    case Lock_tables
    with assms h ag show ?thesis
      by (auto simp: exec_defs agrees_simps server_inv_def split: option.splits)
  next
    case Unlock_tables
    with assms h ag show ?thesis
      by (auto simp: exec_defs agrees_simps server_inv_def)
  next
    case (Find_name n)
    with assms(4) have r: "r = RPtr (RBT.lookup (server_tables s) n)" "s' = s" by auto
    have "agrees i s (H, insert t K, D, L)" if "RBT.lookup (server_tables s) n = Some t" for t
      using ag server_inv_name [OF assms(1) that] by (auto simp: agrees_def)
    with Find_name r h ag assms(1) show ?thesis by (simp split: option.splits)
  next
    case (New_table n)
    have "RBT.lookup (server_tables s) m \<noteq> Some (next_addr s)" for m
      using server_inv_name [OF assms(1), of m "next_addr s"] fresh by auto
    with New_table assms h ag fresh show ?thesis
      by (auto simp: agrees_simps server_inv_def split: if_splits)
  next
    case (Lock_table t)
    with assms(4) obtain tb where "heap s t = Some tb" "m_mutex tb = None" "r = RUnit"
      "s' = s\<lparr>heap := (heap s)(t \<mapsto> tb\<lparr>m_mutex := Some i\<rparr>)\<rparr>"
      by (auto simp: exec_defs split: option.splits)
    with Lock_table h sh free show ?thesis by (auto intro!: upd short_table_ops)
  next
    case (Trylock_table t)
    with assms(4) obtain tb where tb: "heap s t = Some tb" and
      r: "r = RBool (m_mutex tb = None)" "s' = s\<lparr>heap := (heap s)(t \<mapsto> if m_mutex tb = None then tb\<lparr>m_mutex := Some i\<rparr> else tb)\<rparr>"
      by (auto simp: exec_defs on_table_Next split: if_splits)
    show ?thesis
    proof (cases "m_mutex tb = None")
      case True
      with Trylock_table tb r h sh free show ?thesis by (auto intro!: upd short_table_ops)
    next
      case False
      with r tb have "s' = s" "r = RBool False" by (simp_all add: fun_upd_idem)
      with Trylock_table h assms(1,2) show ?thesis by simp
    qed
  next
    case (Unlock_table t)
    with assms(4) obtain tb where tb: "heap s t = Some tb" "r = RUnit" "s' = s\<lparr>heap := (heap s)(t \<mapsto> table_unlock tb)\<rparr>"
      by (auto simp: on_table_Next)
    have "pending tb = Map.empty" using clean [OF tb(1)] held [of t tb] tb(1) Unlock_table assms(3) h by auto
    with tb Unlock_table h sh assms(3) show ?thesis by (auto intro!: upd short_table_ops)
  next
    case (Get t k)
    with assms(4) obtain tb where tb: "heap s t = Some tb" and r: "r = RStr (fst (table_get k tb))"
      and s': "s' = s\<lparr>heap := (heap s)(t \<mapsto> snd (table_get k tb))\<rparr>"
      by (auto simp: exec_Get simp del: exec.simps)
    have "Table_lock t \<in> H" using Get assms(3) h by simp
    with Get tb r s' h sh held clean show ?thesis
      by (auto simp: table_get_result intro!: upd short_table_ops short_table_get)
  next
    case (Put t k v)
    with assms(4) obtain tb where tb: "heap s t = Some tb" "r = RUnit" "s' = s\<lparr>heap := (heap s)(t \<mapsto> table_set k v tb)\<rparr>"
      by (auto simp: on_table_Next)
    have "Table_lock t \<in> H" "length v \<le> MAX_VALUE" using Put assms(3) h by auto
    with Put tb h sh held show ?thesis by (auto intro!: upd short_table_ops)
  next
    case (Commit t)
    with assms(4) obtain tb where tb: "heap s t = Some tb" "r = RUnit" "s' = s\<lparr>heap := (heap s)(t \<mapsto> commit_changes tb)\<rparr>"
      by (auto simp: on_table_Next)
    have "Table_lock t \<in> H" using Commit assms(3) h by simp
    with Commit tb h sh held show ?thesis by (auto intro!: upd short_table_ops)
  next
    case (Rollback t)
    with assms(4) obtain tb where tb: "heap s t = Some tb" "r = RUnit" "s' = s\<lparr>heap := (heap s)(t \<mapsto> rollback_changes tb)\<rparr>"
      by (auto simp: on_table_Next)
    have "Table_lock t \<in> H" using Rollback assms(3) h by simp
    with Rollback tb h sh held show ?thesis by (auto intro!: upd short_table_ops)
  qed
qed

lemma exec_heap_grows: "exec i a s = Next r s' \<Longrightarrow> dom (heap s) \<subseteq> dom (heap s')"
  by (cases a) (auto simp: on_table_Next split: option.splits)

text \<open>What another thread holds or has changed is not affected.\<close>

lemma exec_other:
  assumes "server_inv s" and "agrees i s h" and "allowed a h" and "exec i a s = Next r s'" and "j \<noteq> i"
  shows "holds j s' = holds j s" and "changed j s' = changed j s"
proof -
  obtain H K D L where h: "h = (H, K, D, L)" and hs: "holds i s = H"
    using assms(2) by (cases h) (auto simp: agrees_def)
  have fresh: "heap s (next_addr s) = None" using assms(1) by (simp add: server_inv_def)
  have "holds j s' = holds j s \<and> changed j s' = changed j s"
  proof (cases a)
    case (Get t k)
    with assms(4) obtain tb where "heap s t = Some tb" "s' = s\<lparr>heap := (heap s)(t \<mapsto> snd (table_get k tb))\<rparr>"
      by (auto simp: exec_Get simp del: exec.simps)
    then show ?thesis by (auto simp: holds_same changed_heap_upd mem_changed)
  qed (use assms h hs fresh in
      \<open>auto simp: exec_defs on_table_Next holds_tables holds_heap_upd holds_same holds_new_table mem_holds
        changed_heap_upd changed_new_table mem_changed split: option.splits if_splits\<close>)
  then show "holds j s' = holds j s" "changed j s' = changed j s" by auto
qed

lemma exec_frame:
  assumes "server_inv s" "agrees i s h" "allowed a h" "exec i a s = Next r s'" "j \<noteq> i" "agrees j s h'"
  shows "agrees j s' h'"
proof -
  obtain H K D L where h': "h' = (H, K, D, L)" by (cases h') auto
  have "K \<subseteq> dom (heap s')" using assms(6) h' exec_heap_grows [OF assms(4)] unfolding agrees_def by (simp only: prod.case, blast)
  then show ?thesis using exec_other [OF assms(1-5)] assms(6) h' by (simp add: agrees_def)
qed

interpretation db: thread_logic exec allowed answers after agrees server_inv
  by unfold_locales (auto dest: exec_no_fault exec_sound intro: exec_frame)

end
