(* ===== verification/Value_Stack.thy ===== *)
theory Value_Stack
  imports Prelude
begin

section \<open>The value stack of a client connection\<close>

text \<open>
  \<open>value_stack.h\<close> and \<open>value_stack.cpp\<close>. The \<open>std::stack\<close> is a list whose head is
  the top. The counter \<open>total\<close> is a 32-bit \<open>int\<close>; its increment is modelled as it is
  compiled, wrapping modulo \<open>2 ^ 32\<close>. \<open>stk.top()\<close> and \<open>stk.pop()\<close> on an empty
  \<open>std::stack\<close> are undefined behaviour and are results of their own.

  The invariant \<open>stack_ok\<close> ties the counter to the stack; under it the undefined branches
  are unreachable. The locale \<open>lifo\<close> is the interface the connection relies on, and it is
  interpreted on the operations of this theory.
\<close>

record value_stack =
  stk :: "string list"
  total :: "32 word"

definition ValueStack :: value_stack where
  "ValueStack = \<lparr>stk = [], total = 0\<rparr>"

definition is_empty :: "value_stack \<Rightarrow> bool" where
  "is_empty s = (if total s = 0 then True else False)"

definition push :: "string \<Rightarrow> value_stack \<Rightarrow> value_stack" where
  "push v s = s\<lparr>stk := v # stk s, total := total s + 1\<rparr>"

definition get_top :: "value_stack \<Rightarrow> string result" where
  "get_top s =
     (if total s = 0 then Inl (Raise (OperationException ''Stack is empty''))
      else case stk s of
        [] \<Rightarrow> Inl (Undefined_behaviour ''top of an empty std::stack'')
      | v # _ \<Rightarrow> Inr v)"

definition pop :: "value_stack \<Rightarrow> value_stack result" where
  "pop s =
     (if total s = 0 then Inl (Raise (OperationException ''Stack is empty''))
      else case stk s of
        [] \<Rightarrow> Inl (Undefined_behaviour ''pop of an empty std::stack'')
      | _ # vs \<Rightarrow> Inr (s\<lparr>stk := vs, total := total s - 1\<rparr>))"

subsection \<open>The representation invariant\<close>

definition stack_ok :: "value_stack \<Rightarrow> bool" where
  "stack_ok s \<longleftrightarrow> total s = of_nat (length (stk s))"

definition stack_small :: "value_stack \<Rightarrow> bool" where
  "stack_small s \<longleftrightarrow> length (stk s) < 2 ^ 32"

lemma stack_ok_new [simp]: "stack_ok ValueStack"
  by (simp add: stack_ok_def ValueStack_def)

lemma stack_ok_push [simp]: "stack_ok s \<Longrightarrow> stack_ok (push v s)"
  by (simp add: stack_ok_def push_def add.commute)

lemma stk_push [simp]: "stk (push v s) = v # stk s"
  by (simp add: push_def)

lemma total_zero_iff:
  assumes "stack_ok s" and "stack_small s"
  shows "total s = 0 \<longleftrightarrow> stk s = []"
proof
  assume "total s = 0"
  with assms(1) have "of_nat (length (stk s)) = (0 :: 32 word)" by (simp add: stack_ok_def)
  then have "2 ^ 32 dvd length (stk s)" by (simp add: word_of_nat_eq_0_iff)
  with assms(2) show "stk s = []" by (auto simp: stack_small_def dest: nat_dvd_not_less)
qed (use assms in \<open>simp add: stack_ok_def\<close>)

lemma is_empty_iff: "stack_ok s \<Longrightarrow> stack_small s \<Longrightarrow> is_empty s \<longleftrightarrow> stk s = []"
  by (simp add: is_empty_def total_zero_iff)

lemma not_empty_stk: "stack_ok s \<Longrightarrow> \<not> is_empty s \<Longrightarrow> stk s \<noteq> []"
  by (auto simp: is_empty_def stack_ok_def)

lemma get_top_empty: "is_empty s \<Longrightarrow> get_top s = Inl (Raise (OperationException ''Stack is empty''))"
  by (auto simp: is_empty_def get_top_def split: if_splits)

lemma pop_empty: "is_empty s \<Longrightarrow> pop s = Inl (Raise (OperationException ''Stack is empty''))"
  by (auto simp: is_empty_def pop_def split: if_splits)

lemma get_top_nonempty: "stack_ok s \<Longrightarrow> \<not> is_empty s \<Longrightarrow> get_top s = Inr (hd (stk s))"
  by (auto simp: get_top_def is_empty_def stack_ok_def split: list.splits)

lemma pop_nonempty:
  "stack_ok s \<Longrightarrow> \<not> is_empty s \<Longrightarrow> pop s = Inr (s\<lparr>stk := tl (stk s), total := total s - 1\<rparr>)"
  by (auto simp: pop_def is_empty_def stack_ok_def split: list.splits)

lemma stack_ok_pop: "stack_ok s \<Longrightarrow> pop s = Inr s' \<Longrightarrow> stack_ok s'"
  by (auto simp: pop_def stack_ok_def split: if_splits list.splits)

lemma stk_pop: "pop s = Inr s' \<Longrightarrow> stk s = hd (stk s) # stk s'"
  by (auto simp: pop_def split: if_splits list.splits)

lemma is_empty_push: "stack_ok s \<Longrightarrow> length (stk s) < 2 ^ 32 - 1 \<Longrightarrow> \<not> is_empty (push v s)"
  by (subst is_empty_iff) (auto simp: stack_small_def)

subsection \<open>The interface\<close>

text \<open>
  A last-in first-out container seen through its content: what the arithmetic requests of a
  connection rely on. \<open>room\<close> says that one more element can be counted.
\<close>

locale lifo =
  fixes add :: "'v \<Rightarrow> 's \<Rightarrow> 's"
    and first :: "'s \<Rightarrow> 'e + 'v"
    and rest :: "'s \<Rightarrow> 'e + 's"
    and content :: "'s \<Rightarrow> 'v list"
    and inv :: "'s \<Rightarrow> bool"
    and room :: "nat \<Rightarrow> 's \<Rightarrow> bool"
    and fault :: 'e
  assumes content_add: "inv s \<Longrightarrow> room (Suc n) s \<Longrightarrow> content (add v s) = v # content s"
    and inv_add: "inv s \<Longrightarrow> room (Suc n) s \<Longrightarrow> inv (add v s) \<and> room n (add v s)"
    and first_Cons: "inv s \<Longrightarrow> content s = v # vs \<Longrightarrow> first s = Inr v"
    and rest_Cons: "inv s \<Longrightarrow> content s = v # vs \<Longrightarrow> \<exists>s'. rest s = Inr s' \<and> content s' = vs \<and> inv s'"
    and first_Nil: "inv s \<Longrightarrow> content s = [] \<Longrightarrow> first s = Inl fault"
    and rest_Nil: "inv s \<Longrightarrow> content s = [] \<Longrightarrow> rest s = Inl fault"
begin

lemma first_add: "inv s \<Longrightarrow> room (Suc n) s \<Longrightarrow> first (add v s) = Inr v"
  by (rule first_Cons) (auto simp: content_add inv_add)

lemma rest_add:
  assumes "inv s" and "room (Suc n) s"
  shows "\<exists>s'. rest (add v s) = Inr s' \<and> content s' = content s \<and> inv s'"
  using assms by (intro rest_Cons) (auto simp: content_add inv_add)

lemma content_adds:
  "inv s \<Longrightarrow> room (length vs) s \<Longrightarrow> content (fold add vs s) = rev vs @ content s \<and> inv (fold add vs s)"
proof (induction vs arbitrary: s)
  case Nil
  then show ?case by simp
next
  case (Cons v vs)
  then have "inv (add v s)" "room (length vs) (add v s)" "content (add v s) = v # content s"
    using inv_add [of s "length vs" v] content_add [of s "length vs" v] by auto
  with Cons.IH [of "add v s"] show ?case by simp
qed

lemma first_fails_iff: "inv s \<Longrightarrow> first s = Inl fault \<longleftrightarrow> content s = []"
  by (cases "content s") (auto simp: first_Cons first_Nil)

end

definition stack_room :: "nat \<Rightarrow> value_stack \<Rightarrow> bool" where
  "stack_room n s \<longleftrightarrow> length (stk s) + n < 2 ^ 32"

definition stack_inv :: "value_stack \<Rightarrow> bool" where
  "stack_inv s \<longleftrightarrow> stack_ok s \<and> stack_small s"

interpretation vs: lifo push get_top pop stk stack_inv stack_room
  "Raise (OperationException ''Stack is empty'')"
proof (unfold_locales, goal_cases)
  case (2 s n v)
  then show ?case by (simp add: stack_inv_def stack_small_def stack_room_def)
next
  case (3 s v vs)
  then show ?case
    by (simp add: stack_inv_def is_empty_iff get_top_nonempty)
next
  case (4 s v vs)
  then have "\<not> is_empty s" by (simp add: stack_inv_def is_empty_iff)
  with 4 have p: "pop s = Inr (s\<lparr>stk := vs, total := total s - 1\<rparr>)"
    by (simp add: stack_inv_def pop_nonempty)
  with 4 have "stack_ok (s\<lparr>stk := vs, total := total s - 1\<rparr>)"
    by (auto simp: stack_inv_def intro: stack_ok_pop)
  with 4 p show ?case by (simp add: stack_inv_def stack_small_def)
next
  case (5 s)
  then show ?case by (simp add: stack_inv_def is_empty_iff get_top_empty)
next
  case (6 s)
  then show ?case by (simp add: stack_inv_def is_empty_iff pop_empty)
qed simp

subsection \<open>Properties\<close>

text \<open>C21. The class refines a list: with the counter in step with the stack and less than
  \<open>2 ^ 32\<close> elements, every operation does on the content what it does on a list whose head is
  the top, the empty stack throws \<open>OperationException\<close>, and the invariant is kept.\<close>
theorem value_stack_refines_list:
  assumes "stack_inv s"
  shows "(is_empty s \<longleftrightarrow> stk s = []) \<and>
    get_top s = (case stk s of [] \<Rightarrow> Inl (Raise (OperationException ''Stack is empty'')) | v # _ \<Rightarrow> Inr v) \<and>
    (case stk s of
        [] \<Rightarrow> pop s = Inl (Raise (OperationException ''Stack is empty''))
      | _ # vs \<Rightarrow> \<exists>s'. pop s = Inr s' \<and> stk s' = vs \<and> stack_inv s') \<and>
    (stack_room 1 s \<longrightarrow> stk (push v s) = v # stk s \<and> stack_inv (push v s))"
proof (intro conjI impI)
  show "is_empty s \<longleftrightarrow> stk s = []" using assms by (simp add: stack_inv_def is_empty_iff)
  show "get_top s = (case stk s of [] \<Rightarrow> Inl (Raise (OperationException ''Stack is empty'')) | v # _ \<Rightarrow> Inr v)"
    using vs.first_Nil [OF assms] vs.first_Cons [OF assms] by (cases "stk s") auto
  show "case stk s of
        [] \<Rightarrow> pop s = Inl (Raise (OperationException ''Stack is empty''))
      | _ # vs \<Rightarrow> \<exists>s'. pop s = Inr s' \<and> stk s' = vs \<and> stack_inv s'"
    using vs.rest_Nil [OF assms] vs.rest_Cons [OF assms] by (cases "stk s") auto
  show "stk (push v s) = v # stk s" by simp
  show "stack_inv (push v s)" if "stack_room 1 s"
    using that vs.inv_add [OF assms, of 0] by simp
qed

lemma value_stack_refines_list_witness:
  "stack_inv (push ''b'' (push ''a'' ValueStack)) \<and>
   (\<exists>s'. pop (push ''b'' (push ''a'' ValueStack)) = Inr s' \<and> stk s' = [''a''] \<and> stack_inv s')"
proof -
  have i: "stack_inv (push ''b'' (push ''a'' ValueStack))"
    by (simp add: stack_inv_def stack_small_def ValueStack_def push_def stack_ok_def)
  show ?thesis using value_stack_refines_list [OF i] i by (simp add: ValueStack_def push_def)
qed



end
