(* ===== verification/Message.thy ===== *)
theory Message
  imports Prelude
begin

section \<open>Protocol messages\<close>

text \<open>
  \<open>message.h\<close> and \<open>message.cpp\<close>: the message types, the \<open>Message\<close> class with its
  accessors, and the validity checks on arguments. A \<open>char\<close> is signed on the target, so the
  range tests of the source are made on \<open>schar\<close>; \<open>isspace\<close> is the one of the
  \<open>C\<close> locale, which the program never leaves.
\<close>

datatype MessageType =
    NONE
  | LOGIN | CREATE | PUSH | POP | TOP | SET | GET
  | ADD | SUB | MUL | DIV
  | BEGIN | COMMIT | BYE
  | OK | FAILED | ERROR | DATA

record Message =
  m_message_type :: MessageType
  m_args :: "string list"

definition MAX_ENCODED_LEN :: nat where
  "MAX_ENCODED_LEN = 1024"

definition Message_default :: Message where
  "Message_default = \<lparr>m_message_type = NONE, m_args = []\<rparr>"

definition mk_message :: "MessageType \<Rightarrow> string list \<Rightarrow> Message" where
  "mk_message t args = \<lparr>m_message_type = t, m_args = args\<rparr>"

definition copy_message :: "Message \<Rightarrow> Message" where
  "copy_message other = \<lparr>m_message_type = m_message_type other, m_args = m_args other\<rparr>"

definition resetMsg :: "Message \<Rightarrow> Message" where
  "resetMsg m = m\<lparr>m_message_type := NONE, m_args := []\<rparr>"

definition assign_message :: "Message \<Rightarrow> Message \<Rightarrow> Message" where
  "assign_message this rhs = this\<lparr>m_message_type := m_message_type rhs, m_args := m_args rhs\<rparr>"

definition get_message_type :: "Message \<Rightarrow> MessageType" where
  "get_message_type m = m_message_type m"

definition set_message_type :: "MessageType \<Rightarrow> Message \<Rightarrow> Message" where
  "set_message_type t m = m\<lparr>m_message_type := t\<rparr>"

definition push_arg :: "string \<Rightarrow> Message \<Rightarrow> Message" where
  "push_arg a m = m\<lparr>m_args := m_args m @ [a]\<rparr>"

definition get_num_args :: "Message \<Rightarrow> nat" where
  "get_num_args m = length (m_args m)"

definition get_arg :: "Message \<Rightarrow> nat \<Rightarrow> string result" where
  "get_arg m i =
     (if i < length (m_args m) then Inr (m_args m ! i)
      else Inl (Raise (Out_of_range ''vector::_M_range_check'')))"

definition get_username :: "Message \<Rightarrow> string result" where
  "get_username m = (if get_message_type m = LOGIN then get_arg m 0 else Inr [])"

definition get_table :: "Message \<Rightarrow> string result" where
  "get_table m =
     (if get_message_type m = CREATE \<or> get_message_type m = GET \<or> get_message_type m = SET
      then get_arg m 0 else Inr [])"

definition get_key :: "Message \<Rightarrow> string result" where
  "get_key m =
     (if get_message_type m = SET \<or> get_message_type m = GET then get_arg m 1 else Inr [])"

definition get_value :: "Message \<Rightarrow> string result" where
  "get_value m =
     (if get_message_type m = PUSH \<or> get_message_type m = DATA then get_arg m 0 else Inr [])"

definition get_quoted_text :: "Message \<Rightarrow> string result" where
  "get_quoted_text m =
     (if get_message_type m = FAILED \<or> get_message_type m = ERROR then get_arg m 0 else Inr [])"

subsection \<open>Argument checks\<close>

definition schar :: "char \<Rightarrow> int" where
  "schar c = (let n = of_char c :: int in if n < 128 then n else n - 256)"

definition isspace :: "char \<Rightarrow> bool" where
  "isspace c \<longleftrightarrow> schar c = 32 \<or> (9 \<le> schar c \<and> schar c \<le> 13)"

definition identifier_start :: "char \<Rightarrow> bool" where
  "identifier_start c \<longleftrightarrow> (schar c \<ge> 64 \<and> schar c \<le> 90) \<or> (schar c \<ge> 97 \<and> schar c \<le> 122)"

definition identifier_rest :: "char \<Rightarrow> bool" where
  "identifier_rest c \<longleftrightarrow>
     (schar c \<ge> 64 \<and> schar c \<le> 90) \<or> (schar c \<ge> 97 \<and> schar c \<le> 122) \<or>
     schar c = 95 \<or> (schar c \<ge> 48 \<and> schar c \<le> 57)"

fun identifier_is_valid :: "string \<Rightarrow> bool" where
  "identifier_is_valid [] = False"
| "identifier_is_valid (c # cs) =
     (if \<not> identifier_start c then False else list_all identifier_rest cs)"

definition value_is_valid :: "string \<Rightarrow> bool" where
  "value_is_valid v = (if length v < 1 then False else list_all (\<lambda>c. \<not> isspace c) v)"

definition quoted_text_is_valid :: "string \<Rightarrow> bool" where
  "quoted_text_is_valid q = list_all (\<lambda>i. schar (q ! i) \<noteq> 34) [1..<length q - 1]"

definition valid_number_of_args :: "Message \<Rightarrow> bool" where
  "valid_number_of_args m =
     (case get_message_type m of
        POP \<Rightarrow> get_num_args m = 0 | TOP \<Rightarrow> get_num_args m = 0
      | ADD \<Rightarrow> get_num_args m = 0 | MUL \<Rightarrow> get_num_args m = 0
      | SUB \<Rightarrow> get_num_args m = 0 | DIV \<Rightarrow> get_num_args m = 0
      | BEGIN \<Rightarrow> get_num_args m = 0 | COMMIT \<Rightarrow> get_num_args m = 0
      | BYE \<Rightarrow> get_num_args m = 0 | OK \<Rightarrow> get_num_args m = 0
      | NONE \<Rightarrow> get_num_args m = 0
      | LOGIN \<Rightarrow> get_num_args m = 1 | CREATE \<Rightarrow> get_num_args m = 1
      | PUSH \<Rightarrow> get_num_args m = 1 | FAILED \<Rightarrow> get_num_args m = 1
      | ERROR \<Rightarrow> get_num_args m = 1 | DATA \<Rightarrow> get_num_args m = 1
      | SET \<Rightarrow> get_num_args m = 2 | GET \<Rightarrow> get_num_args m = 2)"

definition is_valid :: "Message \<Rightarrow> bool" where
  "is_valid m =
     (if \<not> valid_number_of_args m then False
      else case get_message_type m of
        LOGIN \<Rightarrow> identifier_is_valid (m_args m ! 0)
      | CREATE \<Rightarrow> identifier_is_valid (m_args m ! 0)
      | SET \<Rightarrow> identifier_is_valid (m_args m ! 0) \<and> identifier_is_valid (m_args m ! 1)
      | GET \<Rightarrow> identifier_is_valid (m_args m ! 0) \<and> identifier_is_valid (m_args m ! 1)
      | PUSH \<Rightarrow> value_is_valid (m_args m ! 0)
      | DATA \<Rightarrow> value_is_valid (m_args m ! 0)
      | FAILED \<Rightarrow> quoted_text_is_valid (m_args m ! 0)
      | ERROR \<Rightarrow> quoted_text_is_valid (m_args m ! 0)
      | _ \<Rightarrow> True)"

subsection \<open>Facts about messages\<close>

lemma mk_message_sels [simp]: "m_message_type (mk_message t as) = t" "m_args (mk_message t as) = as"
  by (simp_all add: mk_message_def)

lemma mk_message_collapse [simp]: "mk_message (m_message_type m) (m_args m) = m"
  by (cases m) (simp add: mk_message_def)

lemmas message_sels [simp] =
  get_message_type_def set_message_type_def push_arg_def resetMsg_def
  Message_default_def assign_message_def get_num_args_def

text \<open>Copying and assigning give an equal message, whatever was in the target.\<close>

lemma message_copies [simp]: "copy_message other = other" "assign_message this other = other"
  by (simp_all add: copy_message_def)

lemma message_eqI: "m_message_type m = t \<Longrightarrow> m_args m = as \<Longrightarrow> m = mk_message t as"
  by auto

text \<open>The shape of a valid message, by its type.\<close>

lemma is_valid_args_0:
  "is_valid m \<Longrightarrow> m_message_type m \<in> {NONE, POP, TOP, ADD, SUB, MUL, DIV, BEGIN, COMMIT, BYE, OK} \<Longrightarrow> m_args m = []"
  by (auto simp: is_valid_def valid_number_of_args_def split: if_splits)

lemma is_valid_args_1:
  assumes "is_valid m" and "m_message_type m \<in> {LOGIN, CREATE, PUSH, DATA, FAILED, ERROR}"
  obtains a where "m_args m = [a]"
  using assms by (fastforce simp: is_valid_def valid_number_of_args_def length_Suc_conv split: if_splits)

lemma is_valid_args_2:
  assumes "is_valid m" and "m_message_type m \<in> {SET, GET}"
  obtains t k where "m_args m = [t, k]" "identifier_is_valid t" "identifier_is_valid k"
  using assms
  by (fastforce simp: is_valid_def valid_number_of_args_def length_Suc_conv numeral_2_eq_2 split: if_splits)

text \<open>On a valid message no accessor fails.\<close>

lemma valid_get_table: "is_valid m \<Longrightarrow> m_message_type m \<in> {CREATE, GET, SET} \<Longrightarrow> get_table m = Inr (m_args m ! 0)"
  by (auto simp: get_table_def get_arg_def elim: is_valid_args_1 is_valid_args_2)

lemma valid_get_key: "is_valid m \<Longrightarrow> m_message_type m \<in> {GET, SET} \<Longrightarrow> get_key m = Inr (m_args m ! 1)"
  by (auto simp: get_key_def get_arg_def elim: is_valid_args_1 is_valid_args_2)

lemma valid_get_value: "is_valid m \<Longrightarrow> m_message_type m \<in> {PUSH, DATA} \<Longrightarrow> get_value m = Inr (m_args m ! 0)"
  by (auto simp: get_value_def get_arg_def elim: is_valid_args_1)

lemma of_char_bounds: "0 \<le> (of_char c :: int)" "(of_char c :: int) < 256"
proof -
  have "(of_char c :: int) = of_char c mod 256" by simp
  then show "0 \<le> (of_char c :: int)" "(of_char c :: int) < 256"
    using pos_mod_sign [of 256 "of_char c :: int"] pos_mod_bound [of 256 "of_char c :: int"] by linarith+
qed

lemma schar_quote: "schar c = 34 \<longleftrightarrow> c = CHR 0x22"
proof
  assume "schar c = 34"
  then have "of_char c = (of_char CHR 0x22 :: int)"
    using of_char_bounds [of c] by (simp add: schar_def Let_def split: if_splits)
  then show "c = CHR 0x22" by (simp only: of_char_eq_iff)
qed (simp add: schar_def)

lemma isspace_chars [simp]: "isspace CHR '' ''" "isspace CHR ''\<newline>''" "\<not> isspace CHR 0x22"
  by (simp_all add: isspace_def schar_def Let_def)

lemma identifier_rest_plain [simp]:
  "\<not> identifier_rest CHR '' ''" "\<not> identifier_rest CHR ''\<newline>''" "\<not> identifier_rest CHR 0x22" "\<not> identifier_rest CHR 0x00"
  by (simp_all add: identifier_rest_def schar_def Let_def)

lemma identifier_start_rest: "identifier_start c \<Longrightarrow> identifier_rest c"
  by (auto simp: identifier_start_def identifier_rest_def)

lemma identifier_all_rest: "identifier_is_valid s \<Longrightarrow> list_all identifier_rest s"
  by (cases s) (auto split: if_splits intro: identifier_start_rest)

lemma identifier_nonempty: "identifier_is_valid s \<Longrightarrow> s \<noteq> []"
  by (cases s) auto

subsection \<open>Properties\<close>

definition first_chars :: string where
  "first_chars = ''@ABCDEFGHIJKLMNOPQRSTUVWXYZabcdefghijklmnopqrstuvwxyz''"

definition next_chars :: string where
  "next_chars = first_chars @ ''0123456789_''"

lemma all_chars: "list_all P (Enum.enum :: char list) \<Longrightarrow> P c"
  using enum_UNIV by (auto simp: list_all_iff)

lemma identifier_start_chars: "identifier_start c \<longleftrightarrow> c \<in> set first_chars"
  by (rule all_chars [where P = "\<lambda>c. identifier_start c \<longleftrightarrow> c \<in> set first_chars"]) code_simp

lemma identifier_rest_chars: "identifier_rest c \<longleftrightarrow> c \<in> set next_chars"
  by (rule all_chars [where P = "\<lambda>c. identifier_rest c \<longleftrightarrow> c \<in> set next_chars"]) code_simp

text \<open>C34. The identifiers that the server accepts as names of users, tables and keys: the range
  checks on character codes amount to a letter or \<open>@\<close> followed by letters, digits, underscores
  and \<open>@\<close>. (The comment in the code says letters only; the ranges start at code 64, which is
  \<open>@\<close>.)\<close>
theorem identifier_language:
  "identifier_is_valid s \<longleftrightarrow>
     (\<exists>c cs. s = c # cs \<and> c \<in> set ''@ABCDEFGHIJKLMNOPQRSTUVWXYZabcdefghijklmnopqrstuvwxyz'' \<and>
        set cs \<subseteq> set ''@ABCDEFGHIJKLMNOPQRSTUVWXYZabcdefghijklmnopqrstuvwxyz0123456789_'')"
  using identifier_start_chars identifier_rest_chars unfolding next_chars_def first_chars_def
  by (cases s) (auto simp: list_all_iff simp del: set_simps)

end
