(* ===== verification/Serialization.thy ===== *)
theory Serialization
  imports Message
begin

section \<open>Encoding and decoding of messages\<close>

text \<open>
  \<open>message_serialization.cpp\<close>. The decoder is kept as the code has it: index loops over
  the encoded string in which every read is \<open>std::string::at\<close>, so that a read past the
  end is the exception \<open>std::out_of_range\<close>. The loops are recursive functions with a
  measure; the argument loop is the nested \<open>while (i < 1024)\<close> of the source, whose inner
  loop reads a quoted argument.

  The lemmas show how the scanner runs over an encoded message (one lemma per loop, over a
  string split at the current index), from which the round trip, the agreement of the
  decoder with the validity check and its behaviour on unterminated quotes follow. The
  locale \<open>codec\<close> is the contract a client of the wire format relies on.
\<close>

fun messageTypeToString :: "MessageType \<Rightarrow> string" where
  "messageTypeToString LOGIN = ''LOGIN''"
| "messageTypeToString CREATE = ''CREATE''"
| "messageTypeToString PUSH = ''PUSH''"
| "messageTypeToString POP = ''POP''"
| "messageTypeToString TOP = ''TOP''"
| "messageTypeToString SET = ''SET''"
| "messageTypeToString GET = ''GET''"
| "messageTypeToString ADD = ''ADD''"
| "messageTypeToString SUB = ''SUB''"
| "messageTypeToString MUL = ''MUL''"
| "messageTypeToString DIV = ''DIV''"
| "messageTypeToString BEGIN = ''BEGIN''"
| "messageTypeToString COMMIT = ''COMMIT''"
| "messageTypeToString BYE = ''BYE''"
| "messageTypeToString OK = ''OK''"
| "messageTypeToString FAILED = ''FAILED''"
| "messageTypeToString ERROR = ''ERROR''"
| "messageTypeToString DATA = ''DATA''"
| "messageTypeToString NONE = []"

definition stringToMessageType :: "string \<Rightarrow> MessageType" where
  "stringToMessageType str =
     (if str = ''LOGIN'' then LOGIN
      else if str = ''CREATE'' then CREATE
      else if str = ''PUSH'' then PUSH
      else if str = ''POP'' then POP
      else if str = ''TOP'' then TOP
      else if str = ''SET'' then SET
      else if str = ''GET'' then GET
      else if str = ''ADD'' then ADD
      else if str = ''SUB'' then SUB
      else if str = ''MUL'' then MUL
      else if str = ''DIV'' then DIV
      else if str = ''BEGIN'' then BEGIN
      else if str = ''COMMIT'' then COMMIT
      else if str = ''BYE'' then BYE
      else if str = ''OK'' then OK
      else if str = ''FAILED'' then FAILED
      else if str = ''ERROR'' then ERROR
      else if str = ''DATA'' then DATA
      else NONE)"

subsection \<open>Encoding\<close>

fun encode_args :: "string list \<Rightarrow> string" where
  "encode_args [] = []"
| "encode_args (a # as) = '' '' @ a @ encode_args as"

definition encode :: "Message \<Rightarrow> string result" where
  "encode msg =
     (let encoded_msg = messageTypeToString (get_message_type msg) @ encode_args (m_args msg) @ ''\<newline>''
      in if length encoded_msg > MAX_ENCODED_LEN
         then Inl (Raise (InvalidMessage ''Message length exceeds max length''))
         else Inr encoded_msg)"

subsection \<open>Decoding\<close>

definition oor :: failure where
  "oor = Raise (Out_of_range ''basic_string::at'')"

definition at_str :: "string \<Rightarrow> nat \<Rightarrow> char result" where
  "at_str s i = (if i < length s then Inr (s ! i) else Inl oor)"

function skip_spaces :: "string \<Rightarrow> nat \<Rightarrow> nat result" where
  "skip_spaces s i =
     (case at_str s i of
        Inl e \<Rightarrow> Inl e
      | Inr c \<Rightarrow> if c = CHR '' '' then skip_spaces s (Suc i) else Inr i)"
  by pat_completeness auto
termination
  by (relation "measure (\<lambda>(s, i). length s - i)") (auto simp: at_str_def split: if_splits)

function read_type :: "string \<Rightarrow> nat \<Rightarrow> string \<Rightarrow> (string \<times> nat) result" where
  "read_type s i acc =
     (case at_str s i of
        Inl e \<Rightarrow> Inl e
      | Inr c \<Rightarrow>
          if c \<noteq> CHR '' '' \<and> c \<noteq> CHR ''\<newline>'' then read_type s (Suc i) (acc @ [c]) else Inr (acc, i))"
  by pat_completeness auto
termination
  by (relation "measure (\<lambda>(s, i, acc). length s - i)") (auto simp: at_str_def split: if_splits)

text \<open>
  The loop over a quoted argument. It ends at the closing quote, having pushed the argument
  and cleared it, or when \<open>i\<close> reaches 1024, with the argument still pending.
\<close>

function quoted_loop :: "string \<Rightarrow> nat \<Rightarrow> string \<Rightarrow> string list \<Rightarrow> (nat \<times> string \<times> string list) result" where
  "quoted_loop s i arg args =
     (if i < 1024
      then case at_str s i of
          Inl e \<Rightarrow> Inl e
        | Inr c \<Rightarrow>
            if c = CHR 0x22 then Inr (i, [], args @ [arg])
            else quoted_loop s (Suc i) (arg @ [c]) args
      else Inr (i, arg, args))"
  by pat_completeness auto
termination
  by (relation "measure (\<lambda>(s, i, arg, args). 1024 - i)") auto

declare skip_spaces.simps [simp del] read_type.simps [simp del] quoted_loop.simps [simp del]

lemma quoted_loop_index: "quoted_loop s i arg args = Inr (j, arg', args') \<Longrightarrow> i \<le> j"
proof (induction s i arg args rule: quoted_loop.induct)
  case (1 s i arg args)
  from "1.prems" show ?case
    by (subst (asm) quoted_loop.simps)
      (auto split: if_splits sum.splits dest: "1.IH" Suc_leD)
qed

text \<open>\<open>if (arg != "") { msg.push_arg(arg); arg = ""; }\<close>\<close>

definition flush_arg :: "string \<Rightarrow> string list \<Rightarrow> string list" where
  "flush_arg arg args = (if arg \<noteq> [] then args @ [arg] else args)"

function arg_loop :: "string \<Rightarrow> nat \<Rightarrow> string \<Rightarrow> string list \<Rightarrow> string list result" where
  "arg_loop s i arg args =
     (if i < 1024
      then case at_str s i of
          Inl e \<Rightarrow> Inl e
        | Inr c \<Rightarrow>
            if c \<noteq> CHR '' '' \<and> c \<noteq> CHR ''\<newline>'' then
              (if c = CHR 0x22
               then case quoted_loop s (Suc i) [] (flush_arg arg args) of
                   Inl e \<Rightarrow> Inl e
                 | Inr (j, arg', args') \<Rightarrow> arg_loop s (Suc j) arg' args'
               else arg_loop s (Suc i) (arg @ [c]) args)
            else if c = CHR ''\<newline>'' then Inr (flush_arg arg args)
            else arg_loop s (Suc i) [] (flush_arg arg args)
      else Inr args)"
  by pat_completeness auto
termination
  by (relation "measure (\<lambda>(s, i, arg, args). 1024 - i)") (auto dest!: quoted_loop_index)

declare arg_loop.simps [simp del]

definition invalid_arguments :: failure where
  "invalid_arguments = Raise (InvalidMessage ''\"Invalid arguments (number and/or format)\"'')"

definition decode :: "string \<Rightarrow> Message result" where
  "decode s =
     (if length s > MAX_ENCODED_LEN then Inl (Raise (InvalidMessage ''Message length exceeds max length''))
      else if s = [] then Inl oor
      else if s ! (length s - 1) \<noteq> CHR ''\<newline>''
      then Inl (Raise (InvalidMessage ''Message not terminated with new line char''))
      else case skip_spaces s 0 of
          Inl e \<Rightarrow> Inl e
        | Inr i \<Rightarrow> (case read_type s i [] of
            Inl e \<Rightarrow> Inl e
          | Inr (messageType, i) \<Rightarrow> (case at_str s i of
              Inl e \<Rightarrow> Inl e
            | Inr c \<Rightarrow> (case (if c \<noteq> CHR ''\<newline>'' then arg_loop s (Suc i) [] [] else Inr []) of
                Inl e \<Rightarrow> Inl e
              | Inr args \<Rightarrow>
                  let msg = mk_message (stringToMessageType messageType) args
                  in if \<not> is_valid msg then Inl invalid_arguments else Inr msg))))"


subsection \<open>Running the loops over a split string\<close>

definition plain :: "char \<Rightarrow> bool" where
  "plain c \<longleftrightarrow> c \<noteq> CHR '' '' \<and> c \<noteq> CHR ''\<newline>'' \<and> c \<noteq> CHR 0x22"

lemma plain_chars [simp]: "\<not> plain CHR '' ''" "\<not> plain CHR ''\<newline>''" "\<not> plain CHR 0x22"
  by (simp_all add: plain_def)

lemma at_str_append [simp]: "at_str (pre @ c # r) (length pre) = Inr c"
  by (simp add: at_str_def)

lemma skip_spaces_run:
  "c \<noteq> CHR '' '' \<Longrightarrow>
   skip_spaces (pre @ replicate n CHR '' '' @ c # r) (length pre) = Inr (length pre + n)"
proof (induction n arbitrary: pre)
  case 0
  then show ?case by (subst skip_spaces.simps) simp
next
  case (Suc n)
  from Suc.IH [of "pre @ '' ''"] Suc.prems show ?case by (subst skip_spaces.simps) simp
qed

lemma read_type_run:
  "\<lbrakk>list_all plain w; d = CHR '' '' \<or> d = CHR ''\<newline>''\<rbrakk> \<Longrightarrow>
   read_type (pre @ w @ d # r) (length pre) acc = Inr (acc @ w, length pre + length w)"
proof (induction w arbitrary: pre acc)
  case Nil
  then show ?case by (subst read_type.simps) auto
next
  case (Cons c w)
  then have "read_type ((pre @ [c]) @ w @ d # r) (length (pre @ [c])) (acc @ [c]) =
      Inr ((acc @ [c]) @ w, length (pre @ [c]) + length w)"
    by (intro Cons.IH) auto
  with Cons.prems show ?case by (subst read_type.simps) (simp add: plain_def)
qed

lemma arg_word_run:
  "\<lbrakk>list_all plain w; length pre + length w \<le> 1024\<rbrakk> \<Longrightarrow>
   arg_loop (pre @ w @ r) (length pre) arg args =
   arg_loop ((pre @ w) @ r) (length (pre @ w)) (arg @ w) args"
proof (induction w arbitrary: pre arg)
  case Nil
  then show ?case by simp
next
  case (Cons c w)
  then have "arg_loop ((pre @ [c]) @ w @ r) (length (pre @ [c])) (arg @ [c]) args =
      arg_loop (((pre @ [c]) @ w) @ r) (length ((pre @ [c]) @ w)) ((arg @ [c]) @ w) args"
    by (intro Cons.IH) auto
  with Cons.prems show ?case by (subst arg_loop.simps) (simp add: plain_def)
qed

lemma arg_space_step:
  "length pre < 1024 \<Longrightarrow>
   arg_loop (pre @ CHR '' '' # r) (length pre) arg args =
   arg_loop ((pre @ '' '') @ r) (length (pre @ '' '')) [] (flush_arg arg args)"
  by (subst arg_loop.simps) simp

lemma arg_newline_step:
  "length pre < 1024 \<Longrightarrow> arg_loop (pre @ CHR ''\<newline>'' # r) (length pre) arg args = Inr (flush_arg arg args)"
  by (subst arg_loop.simps) simp

lemma arg_spaces_run:
  "length pre + n \<le> 1024 \<Longrightarrow>
   arg_loop (pre @ replicate n CHR '' '' @ r) (length pre) [] args =
   arg_loop ((pre @ replicate n CHR '' '') @ r) (length (pre @ replicate n CHR '' '')) [] args"
proof (induction n arbitrary: pre)
  case 0
  then show ?case by simp
next
  case (Suc n)
  from Suc.IH [of "pre @ '' ''"] Suc.prems show ?case
    by (simp add: arg_space_step flush_arg_def)
qed

text \<open>
  A line whose arguments are separated by one or more spaces: \<open>spaced as m\<close> is the text of
  the arguments \<open>as\<close>, each preceded by one space and as many more as its number says,
  followed by \<open>m\<close> spaces and the newline.
\<close>

fun spaced :: "(nat \<times> string) list \<Rightarrow> nat \<Rightarrow> string" where
  "spaced [] m = replicate m CHR '' '' @ ''\<newline>''"
| "spaced ((n, a) # as) m = CHR '' '' # replicate n CHR '' '' @ a @ spaced as m"

definition plain_arg :: "string \<Rightarrow> bool" where
  "plain_arg a \<longleftrightarrow> a \<noteq> [] \<and> list_all plain a"

lemma spaced_encode_args: "spaced (map (Pair 0) as) 0 = encode_args as @ ''\<newline>''"
  by (induction as) auto

lemma arg_trailing_run:
  assumes "length pre + m < 1024"
  shows "arg_loop (pre @ replicate m CHR '' '' @ ''\<newline>'') (length pre) arg args = Inr (flush_arg arg args)"
proof (cases m)
  case 0
  with assms show ?thesis by (simp add: arg_newline_step)
next
  case (Suc m')
  have "arg_loop ((pre @ '' '') @ replicate m' CHR '' '' @ ''\<newline>'') (length (pre @ '' '')) [] (flush_arg arg args) =
      Inr (flush_arg arg args)"
    using assms Suc
    using arg_newline_step [of "pre @ '' '' @ replicate m' CHR '' ''" "[]"]
    by (subst arg_spaces_run) (simp_all add: flush_arg_def)
  with assms Suc show ?thesis by (simp add: arg_space_step)
qed

lemma arg_loop_spaced:
  "\<lbrakk>\<forall>(n, a)\<in>set as. plain_arg a; length (pre @ spaced as m) \<le> 1024\<rbrakk> \<Longrightarrow>
   arg_loop (pre @ spaced as m) (length pre) arg args = Inr (flush_arg arg args @ map snd as)"
proof (induction as arbitrary: pre arg args)
  case Nil
  then show ?case by (simp add: arg_trailing_run)
next
  case (Cons na as)
  obtain n a where na: "na = (n, a)" by force
  let ?pre = "pre @ '' '' @ replicate n CHR '' '' @ a"
  have a: "plain_arg a" "list_all plain a" "a \<noteq> []"
    using Cons.prems(1) na by (auto simp: plain_arg_def)
  have len: "length (?pre @ spaced as m) \<le> 1024"
    using Cons.prems(2) na by simp
  have IH: "arg_loop (?pre @ spaced as m) (length ?pre) a (flush_arg arg args) =
      Inr (flush_arg a (flush_arg arg args) @ map snd as)"
    using Cons.prems(1) len by (intro Cons.IH) auto
  have "arg_loop (pre @ spaced (na # as) m) (length pre) arg args =
      arg_loop ((pre @ '' '') @ replicate n CHR '' '' @ a @ spaced as m) (length (pre @ '' '')) [] (flush_arg arg args)"
    using len na by (simp add: arg_space_step)
  also have "\<dots> = arg_loop (((pre @ '' '') @ replicate n CHR '' '') @ a @ spaced as m)
      (length ((pre @ '' '') @ replicate n CHR '' '')) [] (flush_arg arg args)"
    using len by (intro arg_spaces_run) simp
  also have "\<dots> = arg_loop ((((pre @ '' '') @ replicate n CHR '' '') @ a) @ spaced as m)
      (length (((pre @ '' '') @ replicate n CHR '' '') @ a)) ([] @ a) (flush_arg arg args)"
    using len a by (intro arg_word_run) auto
  also have "\<dots> = Inr (flush_arg arg args @ map snd (na # as))"
    using IH a na by (simp add: flush_arg_def)
  finally show ?case .
qed

lemma quoted_run:
  "\<lbrakk>CHR 0x22 \<notin> set w; length pre + length w < 1024\<rbrakk> \<Longrightarrow>
   quoted_loop (pre @ w @ CHR 0x22 # r) (length pre) arg args =
   Inr (length pre + length w, [], args @ [arg @ w])"
proof (induction w arbitrary: pre arg)
  case Nil
  then show ?case by (subst quoted_loop.simps) simp
next
  case (Cons c w)
  from Cons.IH [of "pre @ [c]" "arg @ [c]"] Cons.prems show ?case
    by (subst quoted_loop.simps) auto
qed

lemma quoted_unterminated:
  "\<lbrakk>CHR 0x22 \<notin> set w; length pre + length w < 1024\<rbrakk> \<Longrightarrow>
   quoted_loop (pre @ w) (length pre) arg args = Inl oor"
proof (induction w arbitrary: pre arg)
  case Nil
  then show ?case by (subst quoted_loop.simps) (simp add: at_str_def)
next
  case (Cons c w)
  from Cons.IH [of "pre @ [c]" "arg @ [c]"] Cons.prems show ?case
    by (subst quoted_loop.simps) auto
qed

subsection \<open>Message type names\<close>

lemma stringToMessageType_inverse [simp]: "stringToMessageType (messageTypeToString t) = t"
  by (cases t) (simp_all add: stringToMessageType_def)

lemma messageTypeToString_plain [simp]: "list_all plain (messageTypeToString t)"
  by (cases t) (simp_all add: plain_def)

lemma messageTypeToString_Nil [simp]: "messageTypeToString t = [] \<longleftrightarrow> t = NONE"
  by (cases t) simp_all

lemma stringToMessageType_name: "stringToMessageType w = t \<Longrightarrow> t \<noteq> NONE \<Longrightarrow> w = messageTypeToString t"
  by (auto simp: stringToMessageType_def split: if_splits)

subsection \<open>Decoding a line of a message type and plain arguments\<close>

lemma decode_line:
  assumes t: "t \<noteq> NONE" and args: "\<forall>(n, a)\<in>set as. plain_arg a"
    and len: "length (replicate k CHR '' '' @ messageTypeToString t @ spaced as m) \<le> 1024"
  shows "decode (replicate k CHR '' '' @ messageTypeToString t @ spaced as m) =
    (if is_valid (mk_message t (map snd as)) then Inr (mk_message t (map snd as))
     else Inl invalid_arguments)"
proof -
  let ?w = "messageTypeToString t"
  let ?s = "replicate k CHR '' '' @ ?w @ spaced as m"
  obtain c w where cw: "?w = c # w" "c \<noteq> CHR '' ''"
    using t messageTypeToString_plain [of t] by (cases ?w) (auto simp: plain_def)
  have nl: "\<exists>b. spaced as m = b @ ''\<newline>''" by (induction as m rule: spaced.induct) auto
  obtain d r where dr: "spaced as m = d # r" "d = CHR '' '' \<or> d = CHR ''\<newline>''"
    by (cases as; cases m) auto
  have sk: "skip_spaces ?s 0 = Inr k"
    using skip_spaces_run [of c "[]" k "w @ spaced as m"] cw by simp
  have rd: "read_type ?s k [] = Inr (?w, k + length ?w)"
    using read_type_run [of ?w d "replicate k CHR '' ''" r "[]"] dr by simp
  have at: "at_str ?s (k + length ?w) = Inr d"
    using at_str_append [of "replicate k CHR '' '' @ ?w" d r] dr by simp
  have al: "(if d \<noteq> CHR ''\<newline>'' then arg_loop ?s (Suc (k + length ?w)) [] [] else Inr []) = Inr (map snd as)"
  proof (cases "d = CHR '' ''")
    case True
    have "arg_loop ((replicate k CHR '' '' @ ?w) @ spaced as m) (length (replicate k CHR '' '' @ ?w)) [] [] =
        Inr (flush_arg [] [] @ map snd as)"
      using args len by (intro arg_loop_spaced) auto
    moreover have "k + length ?w < 1024" using len dr by simp
    ultimately show ?thesis
      using dr True arg_space_step [of "replicate k CHR '' '' @ ?w" r "[]" "[]"]
      by (simp add: flush_arg_def)
  next
    case False
    with dr have "as = []" by (cases as) auto
    with False dr show ?thesis by simp
  qed
  have "?s ! (length ?s - 1) = CHR ''\<newline>''" "?s \<noteq> []"
    using nl by (auto simp: nth_append)
  with t len sk rd at al show ?thesis by (simp add: decode_def MAX_ENCODED_LEN_def)
qed


subsection \<open>The wire contract\<close>

text \<open>
  The messages that survive the wire: valid, of a real type, and with arguments the scanner
  reads as single words. Identifiers are always such words, so for the requests and replies
  that carry only identifiers validity and the length bound are enough.
\<close>

definition wire_ok :: "Message \<Rightarrow> bool" where
  "wire_ok m \<longleftrightarrow>
     is_valid m \<and> get_message_type m \<noteq> NONE \<and> list_all plain_arg (m_args m) \<and>
     length (messageTypeToString (get_message_type m) @ encode_args (m_args m) @ ''\<newline>'') \<le> MAX_ENCODED_LEN"

lemma plain_identifier: "identifier_is_valid a \<Longrightarrow> plain_arg a"
proof -
  assume a: "identifier_is_valid a"
  have "\<And>c. identifier_rest c \<Longrightarrow> plain c"
    unfolding plain_def using identifier_rest_plain by metis
  with a show ?thesis
    using identifier_all_rest [OF a] identifier_nonempty [OF a]
    by (auto simp: plain_arg_def list_all_iff)
qed

lemma plain_value: "value_is_valid a \<Longrightarrow> CHR 0x22 \<notin> set a \<Longrightarrow> plain_arg a"
  using isspace_chars
  by (fastforce simp: value_is_valid_def plain_arg_def plain_def list_all_iff split: if_splits)

lemma encode_wire_ok:
  "wire_ok m \<Longrightarrow> encode m = Inr (messageTypeToString (get_message_type m) @ encode_args (m_args m) @ ''\<newline>'')"
  by (simp add: encode_def wire_ok_def Let_def)

lemma decode_wire_ok:
  assumes "wire_ok m"
  shows "decode (messageTypeToString (get_message_type m) @ encode_args (m_args m) @ ''\<newline>'') = Inr m"
proof -
  let ?t = "get_message_type m"
  let ?as = "map (Pair 0) (m_args m)"
  have m: "mk_message ?t (map snd ?as) = m" by (simp add: comp_def)
  have "decode (replicate 0 CHR '' '' @ messageTypeToString ?t @ spaced ?as 0) = Inr m"
    using assms m by (subst decode_line) (auto simp: wire_ok_def list_all_iff spaced_encode_args MAX_ENCODED_LEN_def)
  then show ?thesis by (simp add: spaced_encode_args)
qed

locale codec =
  fixes enc :: "'m \<Rightarrow> 'e + 'w"
    and dec :: "'w \<Rightarrow> 'e + 'm"
    and ok :: "'m \<Rightarrow> bool"
  assumes roundtrip: "ok m \<Longrightarrow> \<exists>w. enc m = Inr w \<and> dec w = Inr m"
begin

lemma dec_enc: "ok m \<Longrightarrow> enc m = Inr w \<Longrightarrow> dec w = Inr m"
  using roundtrip by fastforce

lemma enc_total: "ok m \<Longrightarrow> \<exists>w. enc m = Inr w"
  using roundtrip by blast

lemma enc_inject: "ok m \<Longrightarrow> ok m' \<Longrightarrow> enc m = enc m' \<Longrightarrow> m = m'"
  using roundtrip by (metis Inr_inject)

end

interpretation wire: codec encode decode wire_ok
  by unfold_locales (blast intro: encode_wire_ok decode_wire_ok)

subsection \<open>What the decoder accepts and how it fails\<close>

lemma decode_is_valid: "decode s = Inr m \<Longrightarrow> is_valid m"
  by (auto simp: decode_def Let_def split: if_splits sum.splits prod.splits)

lemma at_str_fail: "at_str s i = Inl e \<Longrightarrow> e = oor"
  by (auto simp: at_str_def split: if_splits)

lemma skip_spaces_fail: "skip_spaces s i = Inl e \<Longrightarrow> e = oor"
proof (induction s i rule: skip_spaces.induct)
  case (1 s i)
  from "1.prems" show ?case
    by (subst (asm) skip_spaces.simps) (auto split: if_splits sum.splits dest: "1.IH" at_str_fail)
qed

lemma read_type_fail: "read_type s i acc = Inl e \<Longrightarrow> e = oor"
proof (induction s i acc rule: read_type.induct)
  case (1 s i acc)
  from "1.prems" show ?case
    by (subst (asm) read_type.simps) (auto split: if_splits sum.splits dest: "1.IH" at_str_fail)
qed

lemma quoted_loop_fail: "quoted_loop s i arg args = Inl e \<Longrightarrow> e = oor"
proof (induction s i arg args rule: quoted_loop.induct)
  case (1 s i arg args)
  from "1.prems" show ?case
    by (subst (asm) quoted_loop.simps) (auto split: if_splits sum.splits dest: "1.IH" at_str_fail)
qed

lemma arg_loop_fail: "arg_loop s i arg args = Inl e \<Longrightarrow> e = oor"
proof (induction s i arg args rule: arg_loop.induct)
  case (1 s i arg args)
  from "1.prems" show ?case
    by (subst (asm) arg_loop.simps)
      (auto split: if_splits sum.splits prod.splits dest: "1.IH" at_str_fail quoted_loop_fail)
qed

text \<open>The only two kinds of failure: an invalid message, or a read past the end.\<close>

lemma decode_fail_cases:
  assumes "decode s = Inl e"
  obtains (invalid) m where "e = Raise (InvalidMessage m)" "length m \<le> 100" | (past_end) "e = oor"
  using assms
  by (auto simp: decode_def invalid_arguments_def Let_def
      split: if_splits sum.splits prod.splits
      dest: skip_spaces_fail read_type_fail arg_loop_fail at_str_fail)


subsection \<open>Lines: strings that end in a newline\<close>

definition line :: "string \<Rightarrow> bool" where
  "line s \<longleftrightarrow> s \<noteq> [] \<and> s ! (length s - 1) = CHR ''\<newline>''"

lemma line_next:
  "line s \<Longrightarrow> i < length s \<Longrightarrow> s ! i \<noteq> CHR ''\<newline>'' \<Longrightarrow> Suc i < length s"
  by (metis One_nat_def Suc_lessI diff_Suc_1 line_def)

lemma skip_spaces_line: "line s \<Longrightarrow> i < length s \<Longrightarrow> \<exists>j. skip_spaces s i = Inr j \<and> i \<le> j \<and> j < length s"
proof (induction s i rule: skip_spaces.induct)
  case (1 s i)
  then have at: "at_str s i = Inr (s ! i)" by (simp add: at_str_def)
  show ?case
  proof (cases "s ! i = CHR '' ''")
    case True
    with "1.prems" have "Suc i < length s" by (intro line_next) auto
    with "1.IH" [OF at True] "1.prems" at True show ?thesis
      by (subst skip_spaces.simps) (auto intro: Suc_leD)
  next
    case False
    with at "1.prems" show ?thesis by (subst skip_spaces.simps) simp
  qed
qed

lemma read_type_line:
  "line s \<Longrightarrow> i < length s \<Longrightarrow>
   \<exists>w j. read_type s i acc = Inr (w, j) \<and> i \<le> j \<and> j < length s \<and> length w = length acc + (j - i) \<and>
     (s ! j = CHR '' '' \<or> s ! j = CHR ''\<newline>'')"
proof (induction s i acc rule: read_type.induct)
  case (1 s i acc)
  then have at: "at_str s i = Inr (s ! i)" by (simp add: at_str_def)
  show ?case
  proof (cases "s ! i \<noteq> CHR '' '' \<and> s ! i \<noteq> CHR ''\<newline>''")
    case True
    with "1.prems" have "Suc i < length s" by (intro line_next) auto
    with "1.IH" [OF at True] "1.prems" obtain w j where
      "read_type s (Suc i) (acc @ [s ! i]) = Inr (w, j)" "Suc i \<le> j" "j < length s"
      "length w = length (acc @ [s ! i]) + (j - Suc i)" "s ! j = CHR '' '' \<or> s ! j = CHR ''\<newline>''"
      by blast
    with at True show ?thesis by (subst read_type.simps) auto
  next
    case False
    with at "1.prems" show ?thesis by (subst read_type.simps) auto
  qed
qed

lemma arg_loop_no_quote:
  "line s \<Longrightarrow> i < length s \<Longrightarrow> CHR 0x22 \<notin> set s \<Longrightarrow> \<exists>out. arg_loop s i arg args = Inr out"
proof (induction s i arg args rule: arg_loop.induct)
  case (1 s i arg args)
  then have at: "at_str s i = Inr (s ! i)" by (simp add: at_str_def)
  have nq: "s ! i \<noteq> CHR 0x22" using "1.prems" nth_mem by metis
  show ?case
  proof (cases "i < 1024 \<and> s ! i \<noteq> CHR ''\<newline>''")
    case True
    with "1.prems" have "Suc i < length s" by (intro line_next) auto
    with "1.IH"(2) [OF _ at] "1.IH"(3) [OF _ at] "1.prems" at nq True show ?thesis
      by (subst arg_loop.simps) auto
  next
    case False
    with at "1.prems" show ?thesis by (subst arg_loop.simps) auto
  qed
qed

lemma decode_line_string:
  assumes "line s" and "length s \<le> MAX_ENCODED_LEN"
  obtains w i j where
    "skip_spaces s 0 = Inr i" "read_type s i [] = Inr (w, j)" "j < length s" "length w \<le> j"
    "decode s = (case (if s ! j \<noteq> CHR ''\<newline>'' then arg_loop s (Suc j) [] [] else Inr []) of
        Inl e \<Rightarrow> Inl e
      | Inr args \<Rightarrow> let msg = mk_message (stringToMessageType w) args
          in if \<not> is_valid msg then Inl invalid_arguments else Inr msg)"
proof -
  from assms(1) have s: "0 < length s" "s \<noteq> []" "s ! (length s - 1) = CHR ''\<newline>''" by (auto simp: line_def)
  obtain i where i: "skip_spaces s 0 = Inr i" "i < length s" using skip_spaces_line [OF assms(1) s(1)] by blast
  obtain w j where wj: "read_type s i [] = Inr (w, j)" "i \<le> j" "j < length s" "length w = j - i"
    using read_type_line [OF assms(1) i(2), of "[]"] by auto
  have "at_str s j = Inr (s ! j)" using wj(3) by (simp add: at_str_def)
  with i wj s assms(2) show thesis by (intro that [of i w j]) (simp_all add: decode_def)
qed

lemma decode_no_quote:
  assumes "s \<noteq> []" and "CHR 0x22 \<notin> set s"
  shows "decode s \<noteq> Inl oor"
proof (cases "line s \<and> length s \<le> MAX_ENCODED_LEN")
  case True
  then obtain w i j where j: "j < length s" and d:
    "decode s = (case (if s ! j \<noteq> CHR ''\<newline>'' then arg_loop s (Suc j) [] [] else Inr []) of
        Inl e \<Rightarrow> Inl e
      | Inr args \<Rightarrow> let msg = mk_message (stringToMessageType w) args
          in if \<not> is_valid msg then Inl invalid_arguments else Inr msg)"
    using decode_line_string [of s] by blast
  have "\<exists>out. (if s ! j \<noteq> CHR ''\<newline>'' then arg_loop s (Suc j) [] [] else Inr []) = (Inr out :: string list result)"
  proof (cases "s ! j = CHR ''\<newline>''")
    case False
    with True j have "Suc j < length s" by (intro line_next) auto
    with True assms False show ?thesis using arg_loop_no_quote [of s "Suc j"] by simp
  qed simp
  then obtain out where "decode s = (let msg = mk_message (stringToMessageType w) out
      in if \<not> is_valid msg then Inl invalid_arguments else Inr msg)"
    using d by fastforce
  then show ?thesis by (simp add: invalid_arguments_def oor_def Let_def)
next
  case False
  with assms show ?thesis by (auto simp: decode_def line_def oor_def)
qed

subsection \<open>Quoted arguments\<close>

lemma quoted_text_ok: "CHR 0x22 \<notin> set q \<Longrightarrow> quoted_text_is_valid q"
  unfolding quoted_text_is_valid_def list_all_iff schar_quote
  by (metis One_nat_def atLeastLessThan_iff diff_less less_trans linorder_neqE_nat
      list.set_map nth_mem order_less_irrefl set_upt zero_less_diff zero_less_one less_imp_diff_less)

lemma decode_quoted:
  assumes t: "t = FAILED \<or> t = ERROR" and q: "CHR 0x22 \<notin> set q"
    and len: "length (messageTypeToString t @ '' '' @ [CHR 0x22] @ q @ [CHR 0x22] @ ''\<newline>'') \<le> 1024"
  shows "decode (messageTypeToString t @ '' '' @ [CHR 0x22] @ q @ [CHR 0x22] @ ''\<newline>'') = Inr (mk_message t [q])"
proof -
  let ?w = "messageTypeToString t"
  let ?r = "[CHR 0x22] @ q @ [CHR 0x22] @ ''\<newline>''"
  let ?s = "?w @ CHR '' '' # ?r"
  let ?pre = "?w @ '' ''"
  obtain c w where cw: "?w = c # w" "c \<noteq> CHR '' ''" using t by (cases ?w) auto
  have sk: "skip_spaces ?s 0 = Inr 0"
    using skip_spaces_run [of c "[]" 0 "w @ CHR '' '' # ?r"] cw by simp
  have rd: "read_type ?s 0 [] = Inr (?w, length ?w)"
    using read_type_run [of ?w "CHR '' ''" "[]" ?r "[]"] by simp
  have at: "at_str ?s (length ?w) = Inr CHR '' ''" by simp
  have qr: "quoted_loop ((?pre @ [CHR 0x22]) @ q @ CHR 0x22 # ''\<newline>'') (length (?pre @ [CHR 0x22])) [] [] =
      Inr (length (?pre @ [CHR 0x22]) + length q, [], [q])"
    using q len by (subst quoted_run) auto
  have nl: "arg_loop ((?pre @ [CHR 0x22] @ q @ [CHR 0x22]) @ ''\<newline>'') (length (?pre @ [CHR 0x22] @ q @ [CHR 0x22])) [] [q] = Inr [q]"
    using len by (subst arg_newline_step) (auto simp: flush_arg_def)
  have al: "arg_loop ?s (Suc (length ?w)) [] [] = Inr [q]"
    using qr nl len at_str_append [of ?pre "CHR 0x22" "q @ [CHR 0x22] @ ''\<newline>''"]
    by (subst arg_loop.simps) (simp add: flush_arg_def)
  have v: "is_valid (mk_message t [q])"
    using t q by (auto simp: is_valid_def valid_number_of_args_def quoted_text_ok)
  have "decode ?s = Inr (mk_message t [q])"
    using t sk rd at al v len by (auto simp: decode_def MAX_ENCODED_LEN_def nth_append)
  then show ?thesis by simp
qed

lemma arg_loop_prefix:
  "\<lbrakk>CHR 0x22 \<notin> set u; CHR ''\<newline>'' \<notin> set u; length pre + length u \<le> 1024\<rbrakk> \<Longrightarrow>
   \<exists>arg' args'. arg_loop (pre @ u @ r) (length pre) arg args =
     arg_loop ((pre @ u) @ r) (length (pre @ u)) arg' args'"
proof (induction u arbitrary: pre arg args)
  case Nil
  then show ?case by auto
next
  case (Cons c u)
  have step: "\<exists>arg' args'. arg_loop (pre @ (c # u) @ r) (length pre) arg args =
      arg_loop ((pre @ [c]) @ u @ r) (length (pre @ [c])) arg' args'"
    using Cons.prems by (subst arg_loop.simps) auto
  have "\<And>arg' args'. \<exists>arg'' args''. arg_loop ((pre @ [c]) @ u @ r) (length (pre @ [c])) arg' args' =
      arg_loop (((pre @ [c]) @ u) @ r) (length ((pre @ [c]) @ u)) arg'' args''"
    using Cons.prems by (intro Cons.IH) auto
  with step show ?case by (metis append.assoc append_Cons append_Nil)
qed

lemma decode_unterminated:
  assumes w: "list_all plain w" "w \<noteq> []" and u: "CHR 0x22 \<notin> set u" "CHR ''\<newline>'' \<notin> set u"
    and v: "CHR 0x22 \<notin> set v" "line v"
    and len: "length (w @ '' '' @ u @ [CHR 0x22] @ v) < 1024"
  shows "decode (w @ '' '' @ u @ [CHR 0x22] @ v) = Inl oor"
proof -
  let ?r = "u @ CHR 0x22 # v"
  let ?s = "w @ CHR '' '' # ?r"
  let ?pre = "(w @ '' '') @ u"
  obtain c w' where cw: "w = c # w'" "c \<noteq> CHR '' ''" using w by (cases w) (auto simp: plain_def)
  have sk: "skip_spaces ?s 0 = Inr 0"
    using skip_spaces_run [of c "[]" 0 "w' @ CHR '' '' # ?r"] cw by simp
  have rd: "read_type ?s 0 [] = Inr (w, length w)"
    using read_type_run [of w "CHR '' ''" "[]" ?r "[]"] w by simp
  obtain arg args where p: "arg_loop ((w @ '' '') @ u @ CHR 0x22 # v) (length (w @ '' '')) [] [] =
      arg_loop (?pre @ CHR 0x22 # v) (length ?pre) arg args"
    using arg_loop_prefix [OF u, of "w @ '' ''" "CHR 0x22 # v" "[]" "[]"] len by auto
  have q: "quoted_loop ((?pre @ [CHR 0x22]) @ v) (length (?pre @ [CHR 0x22])) [] args' = Inl oor" for args'
    using v len by (intro quoted_unterminated) auto
  have "arg_loop (?pre @ CHR 0x22 # v) (length ?pre) arg args = Inl oor"
    using q [of "flush_arg arg args"] len at_str_append [of ?pre "CHR 0x22" v]
    by (subst arg_loop.simps) simp
  with p have al: "arg_loop ?s (Suc (length w)) [] [] = Inl oor" by simp
  have "?s ! (length ?s - 1) = CHR ''\<newline>''"
    using v by (simp add: line_def nth_append)
  with sk rd al len show ?thesis by (simp add: decode_def MAX_ENCODED_LEN_def)
qed


subsection \<open>The size of decoded arguments\<close>

abbreviation total_length :: "string list \<Rightarrow> nat" where
  "total_length as \<equiv> sum_list (map length as)"

lemma total_length_flush [simp]: "total_length (flush_arg arg args) = total_length args + length arg"
  by (simp add: flush_arg_def)

lemma quoted_loop_result:
  "quoted_loop s i arg args = Inr (j, arg', args') \<Longrightarrow> i \<le> length s \<Longrightarrow>
   (j < length s \<and> s ! j = CHR 0x22 \<and> i \<le> j \<and> arg' = [] \<and>
      total_length args' = total_length args + length arg + (j - i)) \<or>
   (1024 \<le> j \<and> args' = args)"
proof (induction s i arg args rule: quoted_loop.induct)
  case (1 s i arg args)
  show ?case
  proof (cases "i < 1024")
    case False
    with "1.prems" show ?thesis by (subst (asm) quoted_loop.simps) auto
  next
    case True
    with "1.prems"(1) have i: "i < length s" and at: "at_str s i = Inr (s ! i)"
      by (subst (asm) quoted_loop.simps; simp add: at_str_def split: if_splits)+
    show ?thesis
    proof (cases "s ! i = CHR 0x22")
      case True
      with "1.prems" \<open>i < 1024\<close> at i show ?thesis
        by (subst (asm) quoted_loop.simps) auto
    next
      case False
      with "1.prems" \<open>i < 1024\<close> at
      have "quoted_loop s (Suc i) (arg @ [s ! i]) args = Inr (j, arg', args')"
        by (subst (asm) quoted_loop.simps) simp
      with "1.IH" [OF \<open>i < 1024\<close> at False] i show ?thesis by auto
    qed
  qed
qed

lemma arg_loop_length:
  "\<lbrakk>arg_loop s i arg args = Inr out; line s; i < length s; length s \<le> 1024\<rbrakk> \<Longrightarrow>
   total_length out + i + 1 \<le> total_length args + length arg + length s"
proof (induction s i arg args rule: arg_loop.induct)
  case (1 s i arg args)
  have i: "i < 1024" and at: "at_str s i = Inr (s ! i)"
    using "1.prems" by (simp_all add: at_str_def)
  consider (newline) "s ! i = CHR ''\<newline>''" | (space) "s ! i = CHR '' ''" | (quote) "s ! i = CHR 0x22"
    | (char) "s ! i \<noteq> CHR ''\<newline>''" "s ! i \<noteq> CHR '' ''" "s ! i \<noteq> CHR 0x22" by blast
  then show ?case
  proof cases
    case newline
    with "1.prems"(1) i at have "out = flush_arg arg args"
      by (subst (asm) arg_loop.simps) simp
    with "1.prems" show ?thesis by simp
  next
    case space
    with "1.prems"(1) i at have "arg_loop s (Suc i) [] (flush_arg arg args) = Inr out"
      by (subst (asm) arg_loop.simps) simp
    moreover have "Suc i < length s" using "1.prems" space by (intro line_next) auto
    ultimately show ?thesis using "1.IH"(3) [OF i at] space "1.prems" by simp
  next
    case char
    with "1.prems"(1) i at have "arg_loop s (Suc i) (arg @ [s ! i]) args = Inr out"
      by (subst (asm) arg_loop.simps) simp
    moreover have "Suc i < length s" using "1.prems" char by (intro line_next) auto
    ultimately show ?thesis using "1.IH"(2) [OF i at] char "1.prems" by simp
  next
    case quote
    with "1.prems"(1) i at obtain j arg' args' where
      ql: "quoted_loop s (Suc i) [] (flush_arg arg args) = Inr (j, arg', args')" and
      al: "arg_loop s (Suc j) arg' args' = Inr out"
      by (subst (asm) arg_loop.simps) (auto split: sum.splits)
    from quoted_loop_result [OF ql] "1.prems"(3) consider
      (closed) "j < length s" "s ! j = CHR 0x22" "Suc i \<le> j" "arg' = []"
        "total_length args' = total_length (flush_arg arg args) + (j - Suc i)"
      | (full) "1024 \<le> j" "args' = flush_arg arg args" by fastforce
    then show ?thesis
    proof cases
      case closed
      then have "Suc j < length s" using "1.prems" by (intro line_next) auto
      then have "total_length out + Suc j + 1 \<le> total_length args' + length arg' + length s"
        using al quote "1.prems" by (intro "1.IH"(1) [OF i at _ _ ql]) auto
      with closed show ?thesis by simp
    next
      case full
      with al have "out = args'" by (subst (asm) arg_loop.simps) simp
      with full "1.prems" show ?thesis by simp
    qed
  qed
qed

lemma decode_length:
  assumes "decode s = Inr m" and "get_message_type m \<noteq> NONE"
  shows "length (messageTypeToString (get_message_type m)) + total_length (m_args m) + 1 \<le> length s"
    and "m_args m \<noteq> [] \<Longrightarrow>
      length (messageTypeToString (get_message_type m)) + total_length (m_args m) + 2 \<le> length s"
    and "length s \<le> 1024"
proof -
  from assms(1) have s: "line s" "length s \<le> MAX_ENCODED_LEN"
    by (auto simp: decode_def line_def split: if_splits)
  then show "length s \<le> 1024" by (simp add: MAX_ENCODED_LEN_def)
  obtain w i j where j: "j < length s" "length w \<le> j" and d:
    "decode s = (case (if s ! j \<noteq> CHR ''\<newline>'' then arg_loop s (Suc j) [] [] else Inr []) of
        Inl e \<Rightarrow> Inl e
      | Inr args \<Rightarrow> let msg = mk_message (stringToMessageType w) args
          in if \<not> is_valid msg then Inl invalid_arguments else Inr msg)"
    using decode_line_string [OF s] by blast
  obtain out where out: "(if s ! j \<noteq> CHR ''\<newline>'' then arg_loop s (Suc j) [] [] else Inr []) = Inr out"
    and m: "mk_message (stringToMessageType w) out = m"
    using assms(1) unfolding d Let_def by (cases "if s ! j \<noteq> CHR ''\<newline>'' then arg_loop s (Suc j) [] [] else Inr []")
      (simp_all split: if_splits)
  then have al: "(if s ! j \<noteq> CHR ''\<newline>'' then arg_loop s (Suc j) [] [] else Inr []) = Inr (m_args m)"
    by auto
  have w: "w = messageTypeToString (get_message_type m)"
    using m assms(2) by (intro stringToMessageType_name) auto
  have args: "if s ! j = CHR ''\<newline>'' then m_args m = [] else total_length (m_args m) + Suc j + 1 \<le> length s"
  proof (cases "s ! j = CHR ''\<newline>''")
    case False
    with s j have "Suc j < length s" by (intro line_next) auto
    with arg_loop_length [of s "Suc j" "[]" "[]" "m_args m"] al s False show ?thesis
      by (simp add: MAX_ENCODED_LEN_def)
  qed (use al in simp)
  then show "length (messageTypeToString (get_message_type m)) + total_length (m_args m) + 1 \<le> length s"
    using j w by (auto split: if_splits)
  show "m_args m \<noteq> [] \<Longrightarrow> length (messageTypeToString (get_message_type m)) + total_length (m_args m) + 2 \<le> length s"
    using args j w by (auto split: if_splits)
qed

subsection \<open>Properties\<close>

text \<open>C17. Encoding then decoding gives the message back, for every valid message of a type of the
  protocol whose arguments are words without white space or quotes and whose line is not too
  long; and two such messages never have the same encoding.\<close>
theorem message_roundtrip:
  assumes "wire_ok m"
  shows "(\<exists>w. encode m = Inr w \<and> decode w = Inr m) \<and>
    (\<forall>m'. wire_ok m' \<and> encode m' = encode m \<longrightarrow> m' = m)"
  using wire.enc_total [OF assms] wire.dec_enc [OF assms] wire.enc_inject [OF _ assms] by blast

lemma message_roundtrip_witness:
  "\<exists>w. encode (mk_message SET [''accounts'', ''alice'']) = Inr w \<and>
    decode w = Inr (mk_message SET [''accounts'', ''alice''])"
proof -
  have "wire_ok (mk_message SET [''accounts'', ''alice''])" by code_simp
  then show ?thesis by (rule message_roundtrip [THEN conjunct1])
qed

text \<open>C18. What decoding accepts satisfies the validity check of the protocol and came from at most
  1024 bytes that end in a newline; everything else is rejected as \<open>InvalidMessage\<close>, except
  that the scanner can run past the end of the string and throw \<open>std::out_of_range\<close>.\<close>
theorem decode_classified:
  "case decode s of
     Inr m \<Rightarrow> is_valid m \<and> length s \<le> 1024 \<and> s \<noteq> [] \<and> last s = CHR ''\<newline>''
   | Inl e \<Rightarrow> e = Raise (Out_of_range ''basic_string::at'') \<or> (\<exists>m. e = Raise (InvalidMessage m))"
proof (cases "decode s")
  case (Inl e)
  then show ?thesis by (auto simp: oor_def elim!: decode_fail_cases)
next
  case (Inr m)
  then have "length s \<le> 1024 \<and> s \<noteq> [] \<and> last s = CHR ''\<newline>''"
    by (auto simp: decode_def MAX_ENCODED_LEN_def last_conv_nth split: if_splits)
  with Inr decode_is_valid [OF Inr] show ?thesis by simp
qed

text \<open>C28. The scanner runs past the end only because of quotes: without one, a string that is
  not empty is decoded or rejected as an invalid message.\<close>
theorem decode_no_quote_total:
  assumes "s \<noteq> []" and "CHR 0x22 \<notin> set s"
  shows "(\<exists>m. decode s = Inr m \<and> is_valid m) \<or> (\<exists>x. decode s = Inl (Raise (InvalidMessage x)))"
proof (cases "decode s")
  case (Inl e)
  then show ?thesis using decode_no_quote [OF assms] by (auto elim!: decode_fail_cases)
next
  case (Inr m)
  then show ?thesis using decode_is_valid by blast
qed

lemma decode_no_quote_total_witness:
  "(\<exists>m. decode ''FETCH x\<newline>'' = Inr m \<and> is_valid m) \<or> (\<exists>x. decode ''FETCH x\<newline>'' = Inl (Raise (InvalidMessage x)))"
  by (rule decode_no_quote_total) simp_all

text \<open>C27. A line of less than 1024 bytes with an opening quote and no closing one makes the
  decoder read past the end of the string: the exception is not an \<open>InvalidMessage\<close>.\<close>
theorem decode_unterminated_quote:
  assumes "list_all plain w" "w \<noteq> []" and "CHR 0x22 \<notin> set u" "CHR ''\<newline>'' \<notin> set u"
    and "CHR 0x22 \<notin> set v" "line v" and "length (w @ '' '' @ u @ [CHR 0x22] @ v) < 1024"
  shows "decode (w @ '' '' @ u @ [CHR 0x22] @ v) = Inl (Raise (Out_of_range ''basic_string::at''))"
  using decode_unterminated [OF assms] by (simp add: oor_def)

lemma decode_unterminated_quote_witness:
  "decode (''PUSH'' @ '' '' @ [] @ [CHR 0x22] @ ''5\<newline>'') = Inl (Raise (Out_of_range ''basic_string::at''))"
  by (rule decode_unterminated_quote) (simp_all add: line_def plain_def)

text \<open>C29. A \<open>FAILED\<close> or \<open>ERROR\<close> reply in the form the protocol describes, with its text in
  quotes, is decoded to the text.\<close>
theorem decode_quoted_reply:
  assumes "t = FAILED \<or> t = ERROR" and "CHR 0x22 \<notin> set q"
    and "length (messageTypeToString t @ '' '' @ [CHR 0x22] @ q @ [CHR 0x22] @ ''\<newline>'') \<le> 1024"
  shows "decode (messageTypeToString t @ '' '' @ [CHR 0x22] @ q @ [CHR 0x22] @ ''\<newline>'') = Inr (mk_message t [q])"
  by (rule decode_quoted [OF assms])

lemma decode_quoted_reply_witness:
  "decode (messageTypeToString FAILED @ '' '' @ [CHR 0x22] @ ''stack is empty'' @ [CHR 0x22] @ ''\<newline>'') =
   Inr (mk_message FAILED [''stack is empty''])"
  by (rule decode_quoted_reply) simp_all

end
