(* ===== verification/Numeric.thy ===== *)
theory Numeric
  imports Message "HOL-Library.Signed_Division"
begin

section \<open>Numbers in values\<close>

text \<open>
  What \<open>client_connection.cpp\<close> uses of the standard library to compute with values, and the
  four operations it passes to the arithmetic handler.

  \<^item> \<open>stoi\<close> skips white space, reads an optional sign and the longest run of digits, and
    ignores what follows. No digits is \<open>std::invalid_argument\<close>, a number that is not an
    \<open>int\<close> (32 bits) is \<open>std::out_of_range\<close>.
  \<^item> \<open>to_string\<close> is the decimal notation of an \<open>int64_t\<close>.
  \<^item> The operations work on \<open>int64_t\<close>, here \<open>64 word\<close> read with \<open>sint\<close>; division
    truncates towards zero, and a zero divisor is the hardware trap \<open>Sigfpe\<close>, as is the one
    quotient that does not fit.

  The lemmas show that \<open>stoi\<close> inverts \<open>to_string\<close> on \<open>int\<close> values and that none of
  the operations overflows on operands that come from \<open>stoi\<close>.
\<close>

type_synonym int64 = "64 word"

subsection \<open>Reading\<close>

definition isdigit :: "char \<Rightarrow> bool" where
  "isdigit c \<longleftrightarrow> 48 \<le> schar c \<and> schar c \<le> 57"

definition digits_value :: "string \<Rightarrow> int" where
  "digits_value ds = foldl (\<lambda>a c. 10 * a + (schar c - 48)) 0 ds"

definition stoi :: "string \<Rightarrow> int result" where
  "stoi s =
     (let s1 = dropWhile isspace s;
          (neg, s2) = (case s1 of
              [] \<Rightarrow> (False, s1)
            | c # r \<Rightarrow> if c = CHR ''-'' then (True, r) else if c = CHR ''+'' then (False, r) else (False, s1));
          ds = takeWhile isdigit s2;
          v = (if neg then - digits_value ds else digits_value ds)
      in if ds = [] then Inl (Raise (Invalid_argument ''stoi''))
         else if v < - (2 ^ 31) \<or> 2 ^ 31 \<le> v then Inl (Raise (Out_of_range ''stoi''))
         else Inr v)"

subsection \<open>Writing\<close>

definition digit_char :: "nat \<Rightarrow> char" where
  "digit_char d = char_of (48 + d)"

fun show_nat :: "nat \<Rightarrow> string" where
  "show_nat n = (if n < 10 then [digit_char n] else show_nat (n div 10) @ [digit_char (n mod 10)])"

declare show_nat.simps [simp del]

definition show_int :: "int \<Rightarrow> string" where
  "show_int i = (if i < 0 then CHR ''-'' # show_nat (nat (- i)) else show_nat (nat i))"

definition to_string :: "int64 \<Rightarrow> string" where
  "to_string w = show_int (sint w)"

subsection \<open>The operations of the arithmetic requests\<close>

definition op_add :: "int64 \<Rightarrow> int64 \<Rightarrow> int64 result" where
  "op_add a b = Inr (a + b)"

definition op_mul :: "int64 \<Rightarrow> int64 \<Rightarrow> int64 result" where
  "op_mul a b = Inr (a * b)"

definition op_sub :: "int64 \<Rightarrow> int64 \<Rightarrow> int64 result" where
  "op_sub a b = Inr (b - a)"

definition op_div :: "int64 \<Rightarrow> int64 \<Rightarrow> int64 result" where
  "op_div a b =
     (if a = 0 \<or> (sint b = - (2 ^ 63) \<and> sint a = - 1) then Inl Sigfpe
      else Inr (word_of_int (sint b sdiv sint a)))"

subsection \<open>Digits\<close>

lemma schar_digit: "d < 10 \<Longrightarrow> schar (digit_char d) = 48 + int d"
proof -
  assume "d < 10"
  then have "int (of_char (digit_char d)) = 48 + int d" by (simp add: digit_char_def)
  then have "(of_char (digit_char d) :: int) = 48 + int d" by (simp only: of_nat_of_char)
  with \<open>d < 10\<close> show ?thesis by (simp add: schar_def)
qed

lemma isdigit_digit_char: "d < 10 \<Longrightarrow> isdigit (digit_char d)"
  by (simp add: isdigit_def schar_digit)

lemma show_nat_digits: "list_all isdigit (show_nat n)"
proof (induction n rule: show_nat.induct)
  case (1 n)
  then show ?case
    by (subst show_nat.simps) (simp add: isdigit_digit_char)
qed

lemma show_nat_nonempty [simp]: "show_nat n \<noteq> []"
  by (subst show_nat.simps) simp

lemma digits_value_snoc: "digits_value (ds @ [c]) = 10 * digits_value ds + (schar c - 48)"
  by (simp add: digits_value_def)

lemma digits_value_show_nat: "digits_value (show_nat n) = int n"
proof (induction n rule: show_nat.induct)
  case (1 n)
  show ?case
  proof (cases "n < 10")
    case True
    then show ?thesis by (subst show_nat.simps) (simp add: digits_value_def schar_digit)
  next
    case False
    have "int n = 10 * int (n div 10) + int (n mod 10)" by presburger
    with 1 False show ?thesis
      by (subst show_nat.simps) (simp add: digits_value_snoc schar_digit)
  qed
qed

lemma length_show_nat: "n < 10 ^ Suc k \<Longrightarrow> length (show_nat n) \<le> Suc k"
proof (induction k arbitrary: n)
  case 0
  then show ?case by (subst show_nat.simps) simp
next
  case (Suc k)
  then have "n div 10 < 10 ^ Suc k" by auto
  from Suc.IH [OF this] show ?case by (subst show_nat.simps) simp
qed

lemma isdigit_chars: "isdigit c \<Longrightarrow> \<not> isspace c \<and> c \<noteq> CHR ''-'' \<and> c \<noteq> CHR ''+'' \<and> c \<noteq> CHR 0x22"
  by (auto simp: isdigit_def isspace_def schar_def Let_def)

lemma stoi_show_int:
  assumes "- (2 ^ 31) \<le> i" and "i < 2 ^ 31"
  shows "stoi (show_int i) = Inr i"
proof -
  have ds: "takeWhile isdigit (show_nat n) = show_nat n" for n
    using show_nat_digits [of n] by (simp add: list_all_iff)
  obtain c r where cr: "show_nat (nat \<bar>i\<bar>) = c # r" by (cases "show_nat (nat \<bar>i\<bar>)") auto
  then have c: "isdigit c" using show_nat_digits [of "nat \<bar>i\<bar>"] by simp
  have m: "\<not> isspace CHR ''-''" by (simp add: isspace_def schar_def)
  show ?thesis
  proof (cases "i < 0")
    case True
    then have "nat \<bar>i\<bar> = nat (- i)" by simp
    with True assms m show ?thesis
      by (simp add: stoi_def show_int_def digits_value_show_nat Let_def ds)
  next
    case False
    then have "nat \<bar>i\<bar> = nat i" by simp
    with False assms cr isdigit_chars [OF c] ds [of "nat i"] show ?thesis
      using digits_value_show_nat [of "nat i"] by (simp add: stoi_def show_int_def Let_def)
  qed
qed

text \<open>The same without the bounds.\<close>

lemma stoi_show_int_value:
  "stoi (show_int i) = (if - (2 ^ 31) \<le> i \<and> i < 2 ^ 31 then Inr i else Inl (Raise (Out_of_range ''stoi'')))"
proof -
  have ds: "takeWhile isdigit (show_nat n) = show_nat n" for n
    using show_nat_digits [of n] by (simp add: list_all_iff)
  obtain c r where cr: "show_nat (nat i) = c # r" by (cases "show_nat (nat i)") auto
  then have c: "isdigit c" using show_nat_digits [of "nat i"] by simp
  have m: "\<not> isspace CHR ''-''" by (simp add: isspace_def schar_def)
  show ?thesis
  proof (cases "i < 0")
    case True
    with m show ?thesis by (simp add: stoi_def show_int_def digits_value_show_nat Let_def ds)
  next
    case False
    with cr isdigit_chars [OF c] ds [of "nat i"] show ?thesis
      using digits_value_show_nat [of "nat i"] by (simp add: stoi_def show_int_def Let_def)
  qed
qed

lemma stoi_range: "stoi s = Inr v \<Longrightarrow> - (2 ^ 31) \<le> v \<and> v < 2 ^ 31"
  by (auto simp: stoi_def Let_def split: prod.splits if_splits)

lemma stoi_fail: "stoi s = Inl e \<Longrightarrow> \<exists>m. e = Raise (Invalid_argument m) \<or> e = Raise (Out_of_range m)"
  by (auto simp: stoi_def Let_def split: prod.splits if_splits)

lemma sint_bounds: "- (2 ^ 63) \<le> sint (w :: int64) \<and> sint w < 2 ^ 63"
  using sint_greater_eq [of w] sint_less [of w] by simp

lemma length_to_string: "length (to_string w) \<le> 20"
proof -
  have "\<bar>sint w\<bar> < 10 ^ Suc 18" using sint_bounds [of w] by (auto simp: abs_if)
  then have "nat \<bar>sint w\<bar> < 10 ^ Suc 18" by (simp add: nat_less_iff)
  then have "length (show_nat (nat \<bar>sint w\<bar>)) \<le> 19" using length_show_nat [of _ 18] by simp
  then show ?thesis by (auto simp: to_string_def show_int_def split: if_splits)
qed

lemma to_string_valid: "value_is_valid (to_string w) \<and> CHR 0x22 \<notin> set (to_string w)"
proof -
  have "\<not> isspace c \<and> c \<noteq> CHR 0x22" if "c \<in> set (show_nat n)" for c n
    using that show_nat_digits [of n] isdigit_chars by (auto simp: list_all_iff)
  moreover have "\<not> isspace CHR ''-''" by (simp add: isspace_def schar_def)
  ultimately show ?thesis
    by (auto simp: to_string_def show_int_def value_is_valid_def list_all_iff split: if_splits)
qed

subsection \<open>No overflow on \<open>int\<close> operands\<close>

definition int32 :: "int \<Rightarrow> bool" where
  "int32 x \<longleftrightarrow> - (2 ^ 31) \<le> x \<and> x < 2 ^ 31"

lemma sint_word_of_int: "- (2 ^ 63) \<le> x \<Longrightarrow> x < 2 ^ 63 \<Longrightarrow> sint (word_of_int x :: int64) = x"
  by (simp add: signed_of_int signed_take_bit_int_eq_self)

lemma int32_sint: "int32 x \<Longrightarrow> sint (word_of_int x :: int64) = x"
  by (rule sint_word_of_int) (auto simp: int32_def)

lemma int32_mult:
  assumes "int32 x" and "int32 y"
  shows "\<bar>x * y\<bar> \<le> 2 ^ 62"
proof -
  have "\<bar>x\<bar> \<le> 2 ^ 31" "\<bar>y\<bar> \<le> 2 ^ 31" using assms by (auto simp: int32_def)
  then have "\<bar>x\<bar> * \<bar>y\<bar> \<le> 2 ^ 31 * 2 ^ 31" by (intro mult_mono) auto
  then show ?thesis by (simp add: abs_mult)
qed

lemma op_add_exact: "int32 x \<Longrightarrow> int32 y \<Longrightarrow> \<exists>r. op_add (word_of_int x) (word_of_int y) = Inr r \<and> sint r = x + y"
  by (auto simp: op_add_def int32_def simp flip: of_int_add intro!: sint_word_of_int)

lemma op_sub_exact: "int32 x \<Longrightarrow> int32 y \<Longrightarrow> \<exists>r. op_sub (word_of_int x) (word_of_int y) = Inr r \<and> sint r = y - x"
  by (auto simp: op_sub_def int32_def simp flip: of_int_diff intro!: sint_word_of_int)

lemma op_mul_exact:
  assumes "int32 x" and "int32 y"
  shows "\<exists>r. op_mul (word_of_int x) (word_of_int y) = Inr r \<and> sint r = x * y"
proof -
  have "- (2 ^ 63) \<le> x * y" "x * y < 2 ^ 63" using int32_mult [OF assms] by auto
  then have "sint (word_of_int (x * y) :: int64) = x * y" by (rule sint_word_of_int)
  then show ?thesis by (simp add: op_mul_def flip: of_int_mult)
qed

lemma sdiv_bound: "\<bar>(y :: int) sdiv x\<bar> \<le> \<bar>y\<bar>"
proof (cases "x = 0")
  case False
  then have "\<bar>y\<bar> div \<bar>x\<bar> \<le> \<bar>y\<bar> div 1" by (intro zdiv_mono2) auto
  then show ?thesis by (auto simp: signed_divide_int_def abs_mult sgn_if pos_imp_zdiv_nonneg_iff)
qed simp

lemma op_div_exact:
  assumes "int32 x" and "int32 y" and "x \<noteq> 0"
  shows "\<exists>r. op_div (word_of_int x) (word_of_int y) = Inr r \<and> sint r = y sdiv x"
proof -
  have x0: "word_of_int x \<noteq> (0 :: int64)"
    using int32_sint [OF assms(1)] assms(3) by (metis sint_0)
  have "- (2 ^ 63) \<le> y sdiv x" "y sdiv x < 2 ^ 63"
    using sdiv_bound [of y x] assms(2) by (auto simp: int32_def)
  with x0 assms show ?thesis
    by (auto simp: op_div_def int32_sint sint_word_of_int)
qed

lemma op_div_zero: "op_div 0 b = Inl Sigfpe"
  by (simp add: op_div_def)

subsection \<open>Properties\<close>

text \<open>C32. The result of an arithmetic request can be an operand again exactly when it is an
  \<open>int\<close>: then reading its decimal notation gives it back, otherwise \<open>stoi\<close> throws
  \<open>std::out_of_range\<close>, although values are computed in 64 bits.\<close>
theorem stoi_to_string:
  "stoi (to_string w) =
     (if int32 (sint w) then Inr (sint w) else Inl (Raise (Out_of_range ''stoi'')))"
  using stoi_show_int_value [of "sint w"] by (simp add: to_string_def int32_def)

text \<open>C31. On operands read by \<open>stoi\<close> none of the four operations overflows: sum, product,
  difference and, for a divisor other than zero, the quotient truncated towards zero are the
  mathematical ones. A zero divisor is a hardware trap.\<close>
theorem arithmetic_exact:
  assumes "stoi s = Inr x" and "stoi s' = Inr y"
  shows "(\<exists>r. op_add (word_of_int x) (word_of_int y) = Inr r \<and> sint r = x + y) \<and>
    (\<exists>r. op_mul (word_of_int x) (word_of_int y) = Inr r \<and> sint r = x * y) \<and>
    (\<exists>r. op_sub (word_of_int x) (word_of_int y) = Inr r \<and> sint r = y - x) \<and>
    (if x = 0 then op_div (word_of_int x) (word_of_int y) = Inl Sigfpe
     else \<exists>r. op_div (word_of_int x) (word_of_int y) = Inr r \<and> sint r = y sdiv x)"
proof -
  have xy: "int32 x" "int32 y" using stoi_range assms by (auto simp: int32_def)
  show ?thesis
  proof (intro conjI)
    show "\<exists>r. op_add (word_of_int x) (word_of_int y) = Inr r \<and> sint r = x + y" by (rule op_add_exact [OF xy])
    show "\<exists>r. op_mul (word_of_int x) (word_of_int y) = Inr r \<and> sint r = x * y" by (rule op_mul_exact [OF xy])
    show "\<exists>r. op_sub (word_of_int x) (word_of_int y) = Inr r \<and> sint r = y - x" by (rule op_sub_exact [OF xy])
    show "if x = 0 then op_div (word_of_int x) (word_of_int y) = Inl Sigfpe
        else \<exists>r. op_div (word_of_int x) (word_of_int y) = Inr r \<and> sint r = y sdiv x"
      using op_div_exact [OF xy] op_div_zero by simp
  qed
qed

lemma arithmetic_exact_witness:
  "\<exists>r. op_sub (word_of_int 4) (word_of_int (-7)) = Inr r \<and> sint r = -7 - 4"
proof -
  have "stoi ''4'' = Inr 4" "stoi '' -7x'' = Inr (-7)" by code_simp+
  then show ?thesis by (rule arithmetic_exact [THEN conjunct2, THEN conjunct2, THEN conjunct1])
qed

end
