(* ===== verification/Rio.thy ===== *)
theory Rio
  imports Prelude
begin

section \<open>Robust I/O\<close>

text \<open>
  The reading and writing functions of \<open>csapp.c\<close> that connections and clients use. The
  operating system is an argument: what the calls to \<open>read\<close> on a descriptor will return,
  as a list of events, and likewise for \<open>write\<close>. An empty list is a call that waits.

  \<^item> \<open>Chunk bs\<close>: bytes that have arrived; one \<open>read\<close> returns as many of them as asked
    for and leaves the rest for the next.
  \<^item> \<open>Intr\<close>: interrupted by a signal (\<open>errno == EINTR\<close>); \<open>Rerror\<close>: any other error;
    \<open>Eof\<close>: the peer has closed, now and for every later call.

  The functions follow the C code with its internal buffer of 8192 bytes; results are
  \<open>None\<close> when the thread waits for input. The theorems say that \<open>rio_readlineb\<close> reads the
  next line of the byte stream whatever the chunks and interruptions are, and that
  \<open>rio_writen\<close> writes the whole buffer or fails after a prefix of it.
\<close>

definition RIO_BUFSIZE :: nat where
  "RIO_BUFSIZE = 8192"

datatype read_event = Chunk string | Intr | Rerror | Eof

fun sys_read :: "nat \<Rightarrow> read_event list \<Rightarrow> (int \<times> bool \<times> string \<times> read_event list) option" where
  "sys_read n [] = None"
| "sys_read n (Chunk bs # es) =
     (if bs = [] then sys_read n es
      else Some (int (length (take n bs)), False, take n bs,
        if length bs \<le> n then es else Chunk (drop n bs) # es))"
| "sys_read n (Intr # es) = Some (-1, True, [], es)"
| "sys_read n (Rerror # es) = Some (-1, False, [], es)"
| "sys_read n (Eof # es) = Some (0, False, [], Eof # es)"

record rio_t =
  rio_fd :: int
  rio_cnt :: int
  rio_bufptr :: nat
  rio_buf :: string

definition rio_readinitb :: "rio_t \<Rightarrow> int \<Rightarrow> rio_t" where
  "rio_readinitb rp fd = rp\<lparr>rio_fd := fd, rio_cnt := 0, rio_bufptr := 0\<rparr>"

lemma sys_read_shorter:
  "sys_read n es = Some (r, e, bs, es') \<Longrightarrow> length es' \<le> length es \<and> (r < 0 \<longrightarrow> length es' < length es)"
  by (induction n es rule: sys_read.induct) (auto split: if_splits)

text \<open>
  The refill loop of \<open>rio_read\<close>. \<open>Some r\<close> in the first component is an early return of
  the function with value \<open>r\<close>, \<open>None\<close> that the loop was left with bytes in the buffer.
\<close>

function rio_fill :: "rio_t \<Rightarrow> read_event list \<Rightarrow> (int option \<times> rio_t \<times> read_event list) option" where
  "rio_fill rp ins =
     (if rio_cnt rp \<le> 0
      then case sys_read RIO_BUFSIZE ins of
          None \<Rightarrow> None
        | Some (ret, eintr, bs, ins') \<Rightarrow>
            let rp' = rp\<lparr>rio_cnt := ret, rio_buf := bs @ drop (length bs) (rio_buf rp)\<rparr>
            in if ret < 0 then (if \<not> eintr then Some (Some (-1), rp', ins') else rio_fill rp' ins')
               else if ret = 0 then Some (Some 0, rp', ins')
               else rio_fill (rp'\<lparr>rio_bufptr := 0\<rparr>) ins'
      else Some (None, rp, ins))"
  by pat_completeness auto
termination
  by (relation "measure (\<lambda>(rp, ins). 2 * length ins + (if rio_cnt rp \<le> 0 then 1 else 0))")
    (auto dest!: sys_read_shorter)

declare rio_fill.simps [simp del]

definition rio_read :: "rio_t \<Rightarrow> nat \<Rightarrow> read_event list \<Rightarrow> (int \<times> string \<times> rio_t \<times> read_event list) option" where
  "rio_read rp n ins =
     (case rio_fill rp ins of
        None \<Rightarrow> None
      | Some (Some r, rp, ins) \<Rightarrow> Some (r, [], rp, ins)
      | Some (None, rp, ins) \<Rightarrow>
          let cnt = (if rio_cnt rp < int n then rio_cnt rp else int n)
          in Some (cnt, take (nat cnt) (drop (rio_bufptr rp) (rio_buf rp)),
               rp\<lparr>rio_bufptr := rio_bufptr rp + nat cnt, rio_cnt := rio_cnt rp - cnt\<rparr>, ins))"

function readline_loop ::
  "rio_t \<Rightarrow> nat \<Rightarrow> nat \<Rightarrow> string \<Rightarrow> read_event list \<Rightarrow> (int \<times> string \<times> rio_t \<times> read_event list) option" where
  "readline_loop rp maxlen n buf ins =
     (if n < maxlen
      then case rio_read rp 1 ins of
          None \<Rightarrow> None
        | Some (rc, cs, rp', ins') \<Rightarrow>
            if rc = 1 then
              (let c = hd cs in
               if c = CHR ''\<newline>'' then Some (int (Suc n) - 1, buf @ [c], rp', ins')
               else readline_loop rp' maxlen (Suc n) (buf @ [c]) ins')
            else if rc = 0 then
              (if n = 1 then Some (0, buf, rp', ins') else Some (int n - 1, buf, rp', ins'))
            else Some (-1, buf, rp', ins')
      else Some (int n - 1, buf, rp, ins))"
  by pat_completeness auto
termination
  by (relation "measure (\<lambda>(rp, maxlen, n, buf, ins). maxlen - n)") auto

declare readline_loop.simps [simp del]

text \<open>The return value, the bytes stored before the terminating zero, and what is left.\<close>

definition rio_readlineb ::
  "rio_t \<Rightarrow> nat \<Rightarrow> read_event list \<Rightarrow> (int \<times> string \<times> rio_t \<times> read_event list) option" where
  "rio_readlineb rp maxlen ins = readline_loop rp maxlen 1 [] ins"

subsection \<open>The byte stream behind a buffer\<close>

definition rio_ok :: "rio_t \<Rightarrow> bool" where
  "rio_ok rp \<longleftrightarrow> (rio_cnt rp > 0 \<longrightarrow> rio_bufptr rp + nat (rio_cnt rp) \<le> length (rio_buf rp))"

definition unread :: "rio_t \<Rightarrow> string" where
  "unread rp = take (nat (rio_cnt rp)) (drop (rio_bufptr rp) (rio_buf rp))"

fun avail :: "read_event list \<Rightarrow> string" where
  "avail (Chunk bs # es) = bs @ avail es"
| "avail (Intr # es) = avail es"
| "avail _ = []"

text \<open>What a reader meets after the last available byte.\<close>

fun avail_end :: "read_event list \<Rightarrow> read_event option" where
  "avail_end [] = None"
| "avail_end (Chunk bs # es) = avail_end es"
| "avail_end (Intr # es) = avail_end es"
| "avail_end (e # es) = Some e"

definition stream :: "rio_t \<Rightarrow> read_event list \<Rightarrow> string" where
  "stream rp ins = unread rp @ avail ins"

lemma rio_ok_init [simp]: "rio_ok (rio_readinitb rp fd)"
  by (simp add: rio_ok_def rio_readinitb_def)

lemma stream_init [simp]: "stream (rio_readinitb rp fd) ins = avail ins"
  by (simp add: stream_def unread_def rio_readinitb_def)

lemma sys_read_avail:
  "0 < n \<Longrightarrow> sys_read n es = Some (r, e, bs, es') \<Longrightarrow>
   (r < 0 \<and> \<not> e \<or> avail es = bs @ avail es') \<and> avail_end es = (if r < 0 \<and> \<not> e then Some Rerror else avail_end es') \<and>
   (r \<le> 0 \<longrightarrow> bs = []) \<and> (0 < r \<longrightarrow> r = int (length bs)) \<and> length bs \<le> n \<and>
   (r < 0 \<and> \<not> e \<longrightarrow> avail es = []) \<and> (r = 0 \<longrightarrow> avail es = [] \<and> avail_end es = Some Eof)"
  by (induction n es rule: sys_read.induct) (auto split: if_splits)

lemma sys_read_None: "sys_read n es = None \<Longrightarrow> avail es = [] \<and> avail_end es = None"
  by (induction n es rule: sys_read.induct) (auto split: if_splits)

lemma rio_fill_full: "0 < rio_cnt rp \<Longrightarrow> rio_fill rp ins = Some (None, rp, ins)"
  by (subst rio_fill.simps) simp

lemma rio_fill_step:
  assumes "rio_cnt rp \<le> 0" and "sys_read RIO_BUFSIZE ins = Some (r, e, bs, es)"
    and "rp' = rp\<lparr>rio_cnt := r, rio_buf := bs @ drop (length bs) (rio_buf rp)\<rparr>"
  shows "rio_fill rp ins =
    (if r < 0 then (if \<not> e then Some (Some (-1), rp', es) else rio_fill rp' es)
     else if r = 0 then Some (Some 0, rp', es) else Some (None, rp'\<lparr>rio_bufptr := 0\<rparr>, es))"
  using assms by (subst rio_fill.simps) (simp add: rio_fill_full)

lemma unread_empty [simp]: "rio_cnt rp \<le> 0 \<Longrightarrow> unread rp = []"
  by (simp add: unread_def)

definition fill_post :: "rio_t \<Rightarrow> read_event list \<Rightarrow> int option \<Rightarrow> rio_t \<Rightarrow> read_event list \<Rightarrow> bool" where
  "fill_post rp ins ret rp' ins' \<longleftrightarrow>
     (case ret of
        None \<Rightarrow> 0 < rio_cnt rp' \<and> rio_ok rp' \<and> stream rp' ins' = stream rp ins \<and> avail_end ins' = avail_end ins
      | Some r \<Rightarrow> rio_cnt rp' \<le> 0 \<and> stream rp ins = [] \<and>
          (r = 0 \<and> avail_end ins = Some Eof \<and> stream rp' ins' = [] \<and> avail_end ins' = Some Eof \<or>
           r = -1 \<and> avail_end ins = Some Rerror))"

lemma rio_fill_stream:
  "rio_ok rp \<Longrightarrow>
   case rio_fill rp ins of
     None \<Rightarrow> stream rp ins = [] \<and> avail_end ins = None
   | Some (ret, rp', ins') \<Rightarrow> fill_post rp ins ret rp' ins'"
proof (induction rp ins rule: rio_fill.induct)
  case (1 rp ins)
  show ?case
  proof (cases "rio_cnt rp \<le> 0")
    case False
    with "1.prems" show ?thesis by (simp add: rio_fill_full fill_post_def)
  next
    case True
    show ?thesis
    proof (cases "sys_read RIO_BUFSIZE ins")
      case None
      with True have "rio_fill rp ins = None" by (subst rio_fill.simps) simp
      with None True show ?thesis by (simp add: stream_def sys_read_None)
    next
      case (Some t)
      obtain r e bs es where sr: "sys_read RIO_BUFSIZE ins = Some (r, e, bs, es)"
        using Some by (cases t) auto
      have "0 < RIO_BUFSIZE" by (simp add: RIO_BUFSIZE_def)
      note av = sys_read_avail [OF this sr]
      define rp1 where "rp1 = rp\<lparr>rio_cnt := r, rio_buf := bs @ drop (length bs) (rio_buf rp)\<rparr>"
      note step = rio_fill_step [OF True sr rp1_def]
      consider (eintr) "r < 0" e | (err) "r < 0" "\<not> e" | (eof) "r = 0" | (data) "0 < r" by linarith
      then show ?thesis
      proof cases
        case eintr
        then have "rio_ok rp1" and same: "stream rp1 es = stream rp ins" "avail_end es = avail_end ins"
          using av True by (auto simp: rio_ok_def rp1_def stream_def)
        with "1.IH"(1) [OF True sr refl refl refl rp1_def] eintr
        have "case rio_fill rp1 es of None \<Rightarrow> stream rp1 es = [] \<and> avail_end es = None
            | Some (ret, rp', ins') \<Rightarrow> fill_post rp1 es ret rp' ins'" by simp
        with step eintr same show ?thesis by (auto simp: fill_post_def split: option.splits)
      qed (use av True step in \<open>auto simp: fill_post_def stream_def unread_def rio_ok_def rp1_def\<close>)
    qed
  qed
qed

lemma rio_read_byte:
  assumes "rio_ok rp" and "stream rp ins = c # cs"
  obtains rp' ins' where "rio_read rp 1 ins = Some (1, [c], rp', ins')" "rio_ok rp'"
    "stream rp' ins' = cs" "avail_end ins' = avail_end ins"
proof -
  obtain ret rp1 ins1 where f: "rio_fill rp ins = Some (ret, rp1, ins1)" and p: "fill_post rp ins ret rp1 ins1"
    using rio_fill_stream [OF assms(1), of ins] assms(2) by (cases "rio_fill rp ins") auto
  from p assms(2) have ret: "ret = None" and st: "stream rp1 ins1 = c # cs" and ok: "rio_ok rp1"
    and cnt: "0 < rio_cnt rp1" and ae: "avail_end ins1 = avail_end ins"
    by (auto simp: fill_post_def split: option.splits)
  obtain k where k: "nat (rio_cnt rp1) = Suc k" "nat (rio_cnt rp1 - 1) = k"
    using cnt by (metis Suc_pred diff_Suc_1 nat_1 nat_diff_distrib' nat_0_le zero_le_one zero_less_nat_eq less_imp_le One_nat_def)
  with ok cnt have "rio_bufptr rp1 < length (rio_buf rp1)" by (simp add: rio_ok_def)
  then obtain d ds where d: "drop (rio_bufptr rp1) (rio_buf rp1) = d # ds" "drop (Suc (rio_bufptr rp1)) (rio_buf rp1) = ds"
    by (metis Cons_nth_drop_Suc)
  with st k have "d = c" "take k ds @ avail ins1 = cs" by (auto simp: stream_def unread_def)
  with f ret k d ok ae cnt show thesis
    by (intro that [of "rp1\<lparr>rio_bufptr := rio_bufptr rp1 + 1, rio_cnt := rio_cnt rp1 - 1\<rparr>" ins1])
      (auto simp: rio_read_def rio_ok_def stream_def unread_def)
qed


subsection \<open>Reading a line\<close>

lemma readline_loop_run:
  "\<lbrakk>rio_ok rp; stream rp ins = w @ rest; CHR ''\<newline>'' \<notin> set w; n + length w \<le> maxlen\<rbrakk> \<Longrightarrow>
   \<exists>rp' ins'. readline_loop rp maxlen n buf ins = readline_loop rp' maxlen (n + length w) (buf @ w) ins' \<and>
     rio_ok rp' \<and> stream rp' ins' = rest \<and> avail_end ins' = avail_end ins"
proof (induction w arbitrary: rp ins n buf)
  case Nil
  then show ?case by auto
next
  case (Cons c w)
  from Cons.prems obtain rp1 ins1 where r: "rio_read rp 1 ins = Some (1, [c], rp1, ins1)" "rio_ok rp1"
    "stream rp1 ins1 = w @ rest" "avail_end ins1 = avail_end ins"
    using rio_read_byte [of rp ins c "w @ rest"] by auto
  with Cons.prems have "readline_loop rp maxlen n buf ins = readline_loop rp1 maxlen (Suc n) (buf @ [c]) ins1"
    by (subst readline_loop.simps) auto
  with Cons.IH [of rp1 ins1 "Suc n" "buf @ [c]"] r Cons.prems show ?case by auto
qed

theorem readlineb_line:
  assumes "rio_ok rp" and "stream rp ins = w @ CHR ''\<newline>'' # rest"
    and "CHR ''\<newline>'' \<notin> set w" and "length w + 1 < maxlen"
  obtains rp' ins' where
    "rio_readlineb rp maxlen ins = Some (int (length w + 1), w @ ''\<newline>'', rp', ins')"
    "rio_ok rp'" "stream rp' ins' = rest" "avail_end ins' = avail_end ins"
proof -
  obtain rp1 ins1 where 1: "readline_loop rp maxlen 1 [] ins = readline_loop rp1 maxlen (1 + length w) w ins1"
    "rio_ok rp1" "stream rp1 ins1 = CHR ''\<newline>'' # rest" "avail_end ins1 = avail_end ins"
    using readline_loop_run [OF assms(1-3), of 1 maxlen "[]"] assms(4) by auto
  obtain rp2 ins2 where 2: "rio_read rp1 1 ins1 = Some (1, ''\<newline>'', rp2, ins2)" "rio_ok rp2"
    "stream rp2 ins2 = rest" "avail_end ins2 = avail_end ins1"
    using rio_read_byte [OF 1(2,3)] .
  have "readline_loop rp1 maxlen (1 + length w) w ins1 = Some (int (length w + 1), w @ ''\<newline>'', rp2, ins2)"
    using 2(1) assms(4) by (subst readline_loop.simps) simp
  with 1 2 show thesis by (intro that [of rp2 ins2]) (auto simp: rio_readlineb_def)
qed

lemma readlineb_long:
  assumes "rio_ok rp" and "stream rp ins = w @ rest" and "CHR ''\<newline>'' \<notin> set w"
    and "Suc (length w) = maxlen"
  obtains rp' ins' where "rio_readlineb rp maxlen ins = Some (int (length w), w, rp', ins')"
    "rio_ok rp'" "stream rp' ins' = rest" "avail_end ins' = avail_end ins"
proof -
  obtain rp1 ins1 where 1: "readline_loop rp maxlen 1 [] ins = readline_loop rp1 maxlen (1 + length w) w ins1"
    "rio_ok rp1" "stream rp1 ins1 = rest" "avail_end ins1 = avail_end ins"
    using readline_loop_run [OF assms(1-3), of 1 maxlen "[]"] assms(4) by auto
  have "readline_loop rp1 maxlen (1 + length w) w ins1 = Some (int (length w), w, rp1, ins1)"
    using assms(4) by (subst readline_loop.simps) simp
  with 1 show thesis by (intro that [of rp1 ins1]) (auto simp: rio_readlineb_def)
qed

lemma rio_read_eof:
  assumes "rio_ok rp" and "stream rp ins = []" and "avail_end ins = Some Eof"
  obtains rp' ins' where "rio_read rp 1 ins = Some (0, [], rp', ins')"
proof -
  obtain ret rp1 ins1 where f: "rio_fill rp ins = Some (ret, rp1, ins1)" and p: "fill_post rp ins ret rp1 ins1"
    using rio_fill_stream [OF assms(1), of ins] assms(3) by (cases "rio_fill rp ins") auto
  from p assms(2,3) have "ret = Some 0"
    by (auto simp: fill_post_def stream_def unread_def rio_ok_def split: option.splits)
  with f show thesis by (intro that) (simp add: rio_read_def)
qed

lemma readlineb_eof:
  assumes "rio_ok rp" and "stream rp ins = w" and "CHR ''\<newline>'' \<notin> set w"
    and "length w + 1 < maxlen" and "avail_end ins = Some Eof"
  obtains rp' ins' where "rio_readlineb rp maxlen ins = Some (int (length w), w, rp', ins')"
proof -
  obtain rp1 ins1 where 1: "readline_loop rp maxlen 1 [] ins = readline_loop rp1 maxlen (1 + length w) w ins1"
    "rio_ok rp1" "stream rp1 ins1 = []" "avail_end ins1 = Some Eof"
    using readline_loop_run [of rp ins w "[]" 1 maxlen "[]"] assms by auto
  obtain rp2 ins2 where 2: "rio_read rp1 1 ins1 = Some (0, [], rp2, ins2)"
    using rio_read_eof [OF 1(2-4)] .
  have "readline_loop rp1 maxlen (1 + length w) w ins1 = Some (int (length w), w, rp2, ins2)"
    using 2 assms(4) by (subst readline_loop.simps) simp
  with 1 show thesis by (intro that) (auto simp: rio_readlineb_def)
qed

text \<open>What a read line can be, whatever the input: at most \<open>maxlen - 1\<close> bytes, and its length.\<close>

lemma rio_read_one:
  "rio_read rp 1 ins = Some (rc, cs, rp', ins') \<Longrightarrow> rio_ok rp \<Longrightarrow>
   rio_ok rp' \<and> (rc = 1 \<longrightarrow> length cs = 1)"
proof (cases "stream rp ins")
  case (Cons c cs')
  assume r: "rio_read rp 1 ins = Some (rc, cs, rp', ins')" and "rio_ok rp"
  with Cons show ?thesis using rio_read_byte [of rp ins c cs'] by fastforce
next
  case Nil
  assume r: "rio_read rp 1 ins = Some (rc, cs, rp', ins')" and ok: "rio_ok rp"
  then obtain ret rp1 ins1 where f: "rio_fill rp ins = Some (ret, rp1, ins1)" and p: "fill_post rp ins ret rp1 ins1"
    using rio_fill_stream [OF ok, of ins] by (cases "rio_fill rp ins") (auto simp: rio_read_def)
  have "ret \<noteq> None"
  proof
    assume "ret = None"
    with p have "0 < rio_cnt rp1" "rio_ok rp1" "stream rp1 ins1 = []" using Nil by (auto simp: fill_post_def)
    then show False by (auto simp: stream_def unread_def rio_ok_def)
  qed
  then obtain k where "ret = Some k" by auto
  with p f r show ?thesis by (auto simp: fill_post_def rio_ok_def rio_read_def)
qed

lemma readline_loop_bounds:
  "\<lbrakk>readline_loop rp maxlen n buf ins = Some (ret, out, rp', ins'); rio_ok rp; 1 \<le> n;
    length buf = n - 1; n \<le> maxlen\<rbrakk> \<Longrightarrow>
   rio_ok rp' \<and> (ret = -1 \<or> ret = int (length out)) \<and> length out < maxlen"
proof (induction rp maxlen n buf ins rule: readline_loop.induct)
  case (1 rp maxlen n buf ins)
  show ?case
  proof (cases "n < maxlen")
    case False
    with "1.prems" show ?thesis by (subst (asm) readline_loop.simps) auto
  next
    case True
    with "1.prems"(1) obtain rc cs rp1 ins1 where r: "rio_read rp 1 ins = Some (rc, cs, rp1, ins1)"
      by (subst (asm) readline_loop.simps) (auto split: option.splits)
    note one = rio_read_one [OF r "1.prems"(2)]
    show ?thesis
    proof (cases "rc = 1 \<and> hd cs \<noteq> CHR ''\<newline>''")
      case rec: True
      with True r "1.prems"(1) have "readline_loop rp1 maxlen (Suc n) (buf @ [hd cs]) ins1 = Some (ret, out, rp', ins')"
        by (subst (asm) readline_loop.simps) simp
      with "1.IH" [OF True r] rec one "1.prems" True show ?thesis by simp
    next
      case False
      with True r "1.prems" one show ?thesis
        by (subst (asm) readline_loop.simps) (auto split: if_splits)
    qed
  qed
qed

theorem readlineb_bounds:
  "\<lbrakk>rio_readlineb rp maxlen ins = Some (ret, out, rp', ins'); rio_ok rp; 0 < maxlen\<rbrakk> \<Longrightarrow>
   rio_ok rp' \<and> (ret = -1 \<or> ret = int (length out)) \<and> length out < maxlen"
  unfolding rio_readlineb_def by (rule readline_loop_bounds) auto

subsection \<open>Writing\<close>

text \<open>
  What the calls to \<open>write\<close> will do: accept up to \<open>k\<close> bytes, or fail, with \<open>errno\<close>
  equal to \<open>EINTR\<close> or not. A call that accepts nothing leaves \<open>errno\<close> as it was, which
  the code reads all the same; the flag is its value then.
\<close>

datatype write_event = Accept nat bool | Wfail bool

fun writen_loop :: "string \<Rightarrow> string \<Rightarrow> write_event list \<Rightarrow> (bool \<times> string \<times> write_event list) option" where
  "writen_loop left sent evs =
     (if left = [] then Some (True, sent, evs)
      else case evs of
          [] \<Rightarrow> None
        | Wfail eintr # es \<Rightarrow> (if eintr then writen_loop left sent es else Some (False, sent, es))
        | Accept k eintr # es \<Rightarrow>
            (if k = 0 then (if eintr then writen_loop left sent es else Some (False, sent, es))
             else writen_loop (drop k left) (sent @ take k left) es))"

declare writen_loop.simps [simp del]

definition rio_writen :: "string \<Rightarrow> write_event list \<Rightarrow> (int \<times> string \<times> write_event list) option" where
  "rio_writen buf evs =
     (case writen_loop buf [] evs of
        None \<Rightarrow> None
      | Some (ok, sent, es) \<Rightarrow> Some (if ok then int (length buf) else -1, sent, es))"

lemma writen_loop_sent:
  "writen_loop left sent evs = Some (ok, out, es) \<Longrightarrow>
   (if ok then out = sent @ left else \<exists>rest. rest \<noteq> [] \<and> out @ rest = sent @ left)"
proof (induction left sent evs rule: writen_loop.induct)
  case (1 left sent evs)
  show ?case
  proof (cases "left = []")
    case True
    with "1.prems" show ?thesis by (subst (asm) writen_loop.simps) auto
  next
    case False
    with "1.prems" obtain e es' where e: "evs = e # es'"
      by (subst (asm) writen_loop.simps) (auto split: list.splits)
    consider (again) "writen_loop left sent es' = Some (ok, out, es)" "\<exists>k. e = Wfail True \<or> e = Accept k True \<and> k = 0"
      | (failed) "\<not> ok" "out = sent"
      | (more) k b where "e = Accept k b" "k \<noteq> 0" "writen_loop (drop k left) (sent @ take k left) es' = Some (ok, out, es)"
      using "1.prems" False e
      by (subst (asm) writen_loop.simps) (cases e; auto split: if_splits)
    then show ?thesis
    proof cases
      case again
      with "1.IH" False e show ?thesis by fastforce
    next
      case failed
      with False show ?thesis by auto
    next
      case more
      have "if ok then out = (sent @ take k left) @ drop k left
          else \<exists>rest. rest \<noteq> [] \<and> out @ rest = (sent @ take k left) @ drop k left"
        by (rule "1.IH"(2) [OF False e more(1,2,3)])
      then show ?thesis by (simp only: append.assoc append_take_drop_id)
    qed
  qed
qed

lemma writen_sent:
  assumes "rio_writen buf evs = Some (ret, out, es)"
  shows "ret = int (length buf) \<and> out = buf \<or> ret = -1 \<and> (\<exists>rest. rest \<noteq> [] \<and> out @ rest = buf)"
proof -
  obtain ok where w: "writen_loop buf [] evs = Some (ok, out, es)" "ret = (if ok then int (length buf) else -1)"
    using assms by (auto simp: rio_writen_def split: option.splits)
  from writen_loop_sent [OF w(1)] w(2) show ?thesis by (auto split: if_splits)
qed

text \<open>Nothing available and the peer has not closed: the reader waits.\<close>

lemma rio_fill_waits:
  "avail ins = [] \<Longrightarrow> avail_end ins = None \<Longrightarrow> rio_cnt rp \<le> 0 \<Longrightarrow> rio_fill rp ins = None"
proof (induction rp ins rule: rio_fill.induct)
  case (1 rp ins)
  show ?case
  proof (cases "sys_read RIO_BUFSIZE ins")
    case None
    with "1.prems" show ?thesis by (subst rio_fill.simps) simp
  next
    case (Some x)
    then obtain r e bs ins' where x: "sys_read RIO_BUFSIZE ins = Some (r, e, bs, ins')" by (cases x) auto
    have "0 < RIO_BUFSIZE" by (simp add: RIO_BUFSIZE_def)
    note read = sys_read_avail [OF this x]
    have ne: "\<not> (r < 0 \<and> \<not> e)" "r \<noteq> 0" using read "1.prems"(2) by (auto split: if_splits)
    then have b: "bs = []" "avail ins' = []" using read "1.prems"(1) by auto
    then have r: "r < 0" "e" "avail_end ins' = None" using ne read "1.prems"(2) by auto
    have "rio_fill (rp\<lparr>rio_cnt := r, rio_buf := bs @ drop (length bs) (rio_buf rp)\<rparr>) ins' = None"
      using "1.prems"(3) r b by (intro "1.IH"(1) [OF _ x refl refl refl refl]) simp_all
    with x r b "1.prems"(3) show ?thesis by (subst rio_fill.simps) (simp add: Let_def)
  qed
qed

lemma readlineb_waits:
  assumes "rio_ok rp" and "stream rp ins = []" and "avail_end ins = None" and "1 < maxlen"
  shows "rio_readlineb rp maxlen ins = None"
proof -
  have cnt: "rio_cnt rp \<le> 0"
  proof (rule ccontr)
    assume "\<not> rio_cnt rp \<le> 0"
    with assms(1) have "0 < length (take (nat (rio_cnt rp)) (drop (rio_bufptr rp) (rio_buf rp)))"
      by (simp add: rio_ok_def)
    with assms(2) show False by (simp add: stream_def unread_def)
  qed
  with assms have "rio_fill rp ins = None" by (intro rio_fill_waits) (simp_all add: stream_def)
  then have "rio_read rp 1 ins = None" by (simp add: rio_read_def)
  with assms(4) show ?thesis by (simp add: rio_readlineb_def readline_loop.simps)
qed

subsection \<open>Properties\<close>



text \<open>C35. A call never stores more than \<open>maxlen - 1\<close> bytes before the terminating zero, returns
  the number of bytes stored or -1, and leaves the internal buffer consistent.\<close>
theorem readlineb_in_bounds:
  assumes "rio_readlineb rp maxlen ins = Some (ret, out, rp', ins')" and "rio_ok rp" and "0 < maxlen"
  shows "rio_ok rp' \<and> (ret = -1 \<or> ret = int (length out)) \<and> length out < maxlen"
  using readlineb_bounds [OF assms] by auto

lemma readlineb_in_bounds_witness:
  "\<exists>ret out rp' ins'. rio_readlineb \<lparr>rio_fd = 0, rio_cnt = 0, rio_bufptr = 0, rio_buf = []\<rparr> 3 [Chunk ''POP''] =
     Some (ret, out, rp', ins') \<and> length out < 3"
proof -
  let ?rp = "\<lparr>rio_fd = 0, rio_cnt = 0, rio_bufptr = 0, rio_buf = []\<rparr>"
  have ok: "rio_ok ?rp" by (simp add: rio_ok_def)
  obtain rp' ins' where r: "rio_readlineb ?rp 3 [Chunk ''POP''] = Some (int (length ''PO''), ''PO'', rp', ins')"
    by (rule readlineb_long [OF ok, of "[Chunk ''POP'']" "''PO''" "''P''" 3]) (simp_all add: stream_def unread_def)
  show ?thesis using readlineb_in_bounds [OF r ok] r by fastforce
qed

text \<open>C36. \<open>rio_writen\<close> either hands over the whole buffer and returns its length, or returns -1
  after a proper prefix of it: bytes are never repeated, dropped or reordered by short writes
  and interruptions.\<close>
theorem writen_whole_or_prefix:
  assumes "rio_writen buf evs = Some (ret, out, es)"
  shows "ret = int (length buf) \<and> out = buf \<or> ret = -1 \<and> (\<exists>rest. rest \<noteq> [] \<and> out @ rest = buf)"
  by (rule writen_sent [OF assms])

lemma writen_whole_or_prefix_witness:
  "rio_writen ''OK\<newline>'' [Accept 1 False, Wfail True, Accept 5 False] = Some (3, ''OK\<newline>'', []) \<and> (3 :: int) = int (length ''OK\<newline>'')"
proof -
  have r: "rio_writen ''OK\<newline>'' [Accept 1 False, Wfail True, Accept 5 False] = Some (3, ''OK\<newline>'', [])" by code_simp
  show ?thesis using writen_whole_or_prefix [OF r] r by simp
qed

end
