(* ===== verification/Client_Connection.thy ===== *)
theory Client_Connection
  imports Server Value_Stack Serialization Numeric Rio
begin

section \<open>Client connections\<close>

text \<open>
  \<open>client_connection.h\<close> and \<open>client_connection.cpp\<close>. The \<open>ClientConnection\<close> object
  is a record: its descriptor, its read buffer, what is still to arrive on its socket, the login flag, the value
  stack, the pending response, the transaction flag, the set of locked tables (a
  \<open>std::set<Table*>\<close>, iterated in address order) and, for the output, the lines handed to
  \<open>rio_writen\<close> so far. The constructor leaves \<open>logged_in\<close> uninitialised: its first value is
  an argument of the model.

  A handler is a program of atomic actions on the server (theory \<open>Threads\<close>) that transforms the
  connection and can fail: \<open>'a cm\<close>. A failure keeps the changes made before it, as an
  exception does. \<open>seq\<close> is the semicolon. \<open>chat_iteration\<close> is one round of the loop of
  \<open>chat_with_client\<close> after its read: the \<open>try\<close> block, the four \<open>catch\<close> clauses in
  order, and the response at the end. An exception thrown inside a \<open>catch\<close> clause leaves the
  loop, as does any exception the clauses do not name; nothing above the loop catches it.
\<close>

record conn =
  m_client_fd :: int
  m_fdbuf :: rio_t
  input :: "read_event list"
  logged_in :: bool
  client_stack :: value_stack
  response :: Message
  transaction_mode :: bool
  locked_tables :: "tid list"
  sent :: "string list"

definition ClientConnection :: "rio_t \<Rightarrow> bool \<Rightarrow> int \<Rightarrow> read_event list \<Rightarrow> conn" where
  "ClientConnection raw_buf raw_logged_in client_fd arriving =
     \<lparr>m_client_fd = client_fd, m_fdbuf = rio_readinitb raw_buf client_fd, input = arriving, logged_in = raw_logged_in,
      client_stack = ValueStack, response = mk_message NONE [], transaction_mode = False,
      locked_tables = [], sent = []\<rparr>"

text \<open>The destructor, on the set of open descriptors.\<close>

definition destroy_ClientConnection :: "conn \<Rightarrow> int set \<Rightarrow> int set" where
  "destroy_ClientConnection c fds = fds - {m_client_fd c}"

type_synonym 'a cm = "conn \<Rightarrow> ('a result \<times> conn) thread_prog"

subsection \<open>Sequencing\<close>

definition ret :: "'a \<Rightarrow> 'a cm" where
  "ret x c = Ret (Inr x, c)"

definition fail :: "failure \<Rightarrow> 'a cm" where
  "fail e c = Ret (Inl e, c)"

definition lift :: "'a result \<Rightarrow> 'a cm" where
  "lift r c = Ret (r, c)"

definition modify :: "(conn \<Rightarrow> conn) \<Rightarrow> unit cm" where
  "modify f c = Ret (Inr (), f c)"

definition call :: "'a thread_prog \<Rightarrow> 'a cm" where
  "call p c = bind_prog p (\<lambda>x. Ret (Inr x, c))"

definition act :: "action \<Rightarrow> reply cm" where
  "act a c = Act a (\<lambda>r. Ret (Inr r, c))"

definition seq :: "'a cm \<Rightarrow> ('a \<Rightarrow> 'b cm) \<Rightarrow> 'b cm" where
  "seq m f c = bind_prog (m c) (\<lambda>(r, c'). case r of Inl e \<Rightarrow> Ret (Inl e, c') | Inr x \<Rightarrow> f x c')"

definition respond :: "MessageType \<Rightarrow> string list \<Rightarrow> unit cm" where
  "respond t args = modify (\<lambda>c. c\<lparr>response := mk_message t args\<rparr>)"

definition throw :: "exn \<Rightarrow> 'a cm" where
  "throw e = fail (Raise e)"

subsection \<open>The stack operations on the connection\<close>

definition stack_push :: "string \<Rightarrow> unit cm" where
  "stack_push v = modify (\<lambda>c. c\<lparr>client_stack := push v (client_stack c)\<rparr>)"

definition stack_top :: "string cm" where
  "stack_top c = lift (get_top (client_stack c)) c"

definition stack_pop :: "unit cm" where
  "stack_pop c =
     (case pop (client_stack c) of
        Inl e \<Rightarrow> fail e c
      | Inr s \<Rightarrow> ret () (c\<lparr>client_stack := s\<rparr>))"

subsection \<open>Table locking\<close>

definition table_is_locked :: "tid \<Rightarrow> conn \<Rightarrow> bool" where
  "table_is_locked t c \<longleftrightarrow> t \<in> set (locked_tables c)"

definition handle_table_locking :: "tid \<Rightarrow> unit cm" where
  "handle_table_locking t c =
     (if \<not> transaction_mode c then seq (act (Lock_table t)) (\<lambda>_. ret ()) c
      else if table_is_locked t c then ret () c
      else seq (act (Trylock_table t)) (\<lambda>r.
        if r = RBool True then modify (\<lambda>c. c\<lparr>locked_tables := insort_insert t (locked_tables c)\<rparr>)
        else throw (FailedTransaction ''Failed to acquire lock'')) c)"

primrec rollback_each :: "tid list \<Rightarrow> unit cm" where
  "rollback_each [] = ret ()"
| "rollback_each (t # ts) =
     seq (act (Rollback t)) (\<lambda>_. seq (act (Unlock_table t)) (\<lambda>_. rollback_each ts))"

definition rollback_tables :: "unit cm" where
  "rollback_tables c =
     seq (rollback_each (locked_tables c)) (\<lambda>_. modify (\<lambda>c. c\<lparr>locked_tables := []\<rparr>)) c"

primrec commit_each :: "tid list \<Rightarrow> unit cm" where
  "commit_each [] = ret ()"
| "commit_each (t # ts) =
     seq (act (Commit t)) (\<lambda>_. seq (act (Unlock_table t)) (\<lambda>_. commit_each ts))"

definition commit_tables :: "unit cm" where
  "commit_tables c =
     seq (commit_each (locked_tables c)) (\<lambda>_. modify (\<lambda>c. c\<lparr>locked_tables := []\<rparr>)) c"

subsection \<open>The request handlers\<close>

definition create_request_handler :: "Message \<Rightarrow> unit cm" where
  "create_request_handler request =
     seq (lift (get_table request)) (\<lambda>name.
     seq (call (find_table name)) (\<lambda>p.
       if p \<noteq> None then throw (InvalidMessage ''Table has already been created'')
       else seq (lift (get_table request)) (\<lambda>name.
         seq (call (create_table name)) (\<lambda>_.
         respond OK []))))"

definition push_request_handler :: "Message \<Rightarrow> unit cm" where
  "push_request_handler request =
     seq (lift (get_value request)) (\<lambda>v.
     seq (stack_push v) (\<lambda>_.
     respond OK []))"

definition pop_request_handler :: "Message \<Rightarrow> unit cm" where
  "pop_request_handler request c =
     (if is_empty (client_stack c) then throw (OperationException ''Stack is empty'') c
      else seq stack_pop (\<lambda>_. respond OK []) c)"

definition top_request_handler :: "Message \<Rightarrow> unit cm" where
  "top_request_handler request c =
     (if is_empty (client_stack c) then throw (OperationException ''Stack is empty'') c
      else seq stack_top (\<lambda>v. respond DATA [v]) c)"

definition autocommit :: "tid \<Rightarrow> unit cm" where
  "autocommit t c =
     (if \<not> transaction_mode c
      then seq (act (Commit t)) (\<lambda>_. seq (act (Unlock_table t)) (\<lambda>_. ret ())) c
      else ret () c)"

definition get_request_handler :: "Message \<Rightarrow> unit cm" where
  "get_request_handler request =
     seq (lift (get_table request)) (\<lambda>name.
     seq (call (find_table name)) (\<lambda>p.
       case p of
         None \<Rightarrow> throw (InvalidMessage ''Table not found'')
       | Some cur_table \<Rightarrow>
           seq (handle_table_locking cur_table) (\<lambda>_.
           seq (lift (get_key request)) (\<lambda>key.
           seq (act (Get cur_table key)) (\<lambda>r.
           seq (lift (case r of RStr v \<Rightarrow> v | _ \<Rightarrow> Inr [])) (\<lambda>cur_val.
           seq (stack_push cur_val) (\<lambda>_.
           seq (autocommit cur_table) (\<lambda>_.
           respond OK [])))))))) "

definition set_request_handler :: "Message \<Rightarrow> unit cm" where
  "set_request_handler request =
     seq (lift (get_table request)) (\<lambda>name.
     seq (call (find_table name)) (\<lambda>p.
       case p of
         None \<Rightarrow> throw (InvalidMessage ''Table not found'')
       | Some cur_table \<Rightarrow>
           seq (handle_table_locking cur_table) (\<lambda>_ c.
             if is_empty (client_stack c) then throw (OperationException ''Stack is empty'') c
             else seq stack_top (\<lambda>popped_val.
               seq stack_pop (\<lambda>_.
               seq (lift (get_key request)) (\<lambda>key.
               seq (act (Put cur_table key popped_val)) (\<lambda>_.
               seq (autocommit cur_table) (\<lambda>_.
               respond OK []))))) c)))"

text \<open>
  \<open>pop_two_values\<close> turns every \<open>std::exception\<close> of its body into \<open>false\<close>; what was
  popped before it stays popped.
\<close>

definition pop_two_values :: "(int64 \<times> int64) option cm" where
  "pop_two_values c =
     bind_prog
       (seq stack_top (\<lambda>pop1.
        seq stack_pop (\<lambda>_.
        seq stack_top (\<lambda>pop2.
        seq stack_pop (\<lambda>_.
        seq (lift (stoi pop1)) (\<lambda>val1.
        seq (lift (stoi pop2)) (\<lambda>val2.
        ret (Some (word_of_int val1, word_of_int val2))))))))  c)
       (\<lambda>(r, c'). case r of Inl (Raise e) \<Rightarrow> Ret (Inr None, c') | _ \<Rightarrow> Ret (r, c'))"

definition arithmetic_request_handler ::
  "Message \<Rightarrow> (int64 \<Rightarrow> int64 \<Rightarrow> int64 result) \<Rightarrow> unit cm" where
  "arithmetic_request_handler request operation =
     seq pop_two_values (\<lambda>v.
       case v of
         None \<Rightarrow> throw (OperationException ''Stack is empty or operands are not valid'')
       | Some (value_1, value_2) \<Rightarrow>
           seq (lift (operation value_1 value_2)) (\<lambda>result.
           seq (stack_push (to_string result)) (\<lambda>_.
           respond OK [])))"

subsection \<open>The loop body\<close>

definition return_response_to_client :: "unit cm" where
  "return_response_to_client c =
     seq (lift (encode (response c))) (\<lambda>w. modify (\<lambda>c. c\<lparr>sent := sent c @ [w]\<rparr>)) c"

definition set_transaction_mode :: "bool \<Rightarrow> unit cm" where
  "set_transaction_mode b = modify (\<lambda>c. c\<lparr>transaction_mode := b\<rparr>)"

text \<open>The \<open>switch\<close> on the request; the result is the new value of \<open>keep_going\<close>.\<close>

definition dispatch :: "Message \<Rightarrow> bool cm" where
  "dispatch request =
     (case get_message_type request of
        CREATE \<Rightarrow> seq (create_request_handler request) (\<lambda>_. ret True)
      | PUSH \<Rightarrow> seq (push_request_handler request) (\<lambda>_. ret True)
      | POP \<Rightarrow> seq (pop_request_handler request) (\<lambda>_. ret True)
      | TOP \<Rightarrow> seq (top_request_handler request) (\<lambda>_. ret True)
      | SET \<Rightarrow> seq (set_request_handler request) (\<lambda>_. ret True)
      | GET \<Rightarrow> seq (get_request_handler request) (\<lambda>_. ret True)
      | ADD \<Rightarrow> seq (arithmetic_request_handler request op_add) (\<lambda>_. ret True)
      | MUL \<Rightarrow> seq (arithmetic_request_handler request op_mul) (\<lambda>_. ret True)
      | SUB \<Rightarrow> seq (arithmetic_request_handler request op_sub) (\<lambda>_. ret True)
      | DIV \<Rightarrow> seq (arithmetic_request_handler request op_div) (\<lambda>_. ret True)
      | BEGIN \<Rightarrow> seq (respond OK []) (\<lambda>_. seq (set_transaction_mode True) (\<lambda>_. ret True))
      | COMMIT \<Rightarrow> seq commit_tables (\<lambda>_. seq (set_transaction_mode False) (\<lambda>_.
          seq (respond OK []) (\<lambda>_. ret True)))
      | BYE \<Rightarrow> seq (respond OK []) (\<lambda>_. ret False)
      | _ \<Rightarrow> throw (InvalidMessage ''Invalid message sent''))"

text \<open>How the \<open>try\<close> block ends: by \<open>continue\<close>, or at its end with \<open>keep_going\<close>.\<close>

datatype flow = Continue | Proceed bool

definition c_string :: "string \<Rightarrow> string" where
  "c_string buf = takeWhile (\<lambda>ch. ch \<noteq> CHR 0x00) buf"

definition try_block :: "int \<Rightarrow> string \<Rightarrow> flow cm" where
  "try_block n buf =
     (if n \<le> 0 then throw (CommException ''Error reading client input'')
      else seq (lift (decode (c_string buf))) (\<lambda>request.
        if \<not> is_valid request then fail invalid_arguments
        else if get_message_type request = LOGIN then
          seq (modify (\<lambda>c. c\<lparr>logged_in := True\<rparr>)) (\<lambda>_.
          seq (respond OK []) (\<lambda>_.
          seq return_response_to_client (\<lambda>_.
          ret Continue)))
        else (\<lambda>c. if \<not> logged_in c then throw (InvalidMessage ''User not logged in'') c
          else seq (dispatch request) (\<lambda>k. ret (Proceed k)) c)))"

definition finish_iteration :: "bool \<Rightarrow> bool cm" where
  "finish_iteration keep_going = seq return_response_to_client (\<lambda>_. ret keep_going)"

definition catch_clauses :: "failure \<Rightarrow> bool cm" where
  "catch_clauses e c =
     (case e of
        Raise (OperationException m) \<Rightarrow>
          if transaction_mode c then throw (FailedTransaction ''operation failed during transaction'') c
          else seq (respond FAILED [m]) (\<lambda>_. finish_iteration True) c
      | Raise (FailedTransaction m) \<Rightarrow>
          seq rollback_tables (\<lambda>_. seq (set_transaction_mode False) (\<lambda>_.
          seq (respond FAILED [m]) (\<lambda>_. finish_iteration True))) c
      | Raise (InvalidMessage m) \<Rightarrow> seq (respond ERROR [m]) (\<lambda>_. finish_iteration False) c
      | Raise (CommException m) \<Rightarrow> seq (respond ERROR [m]) (\<lambda>_. finish_iteration False) c
      | _ \<Rightarrow> fail e c)"

definition chat_iteration :: "int \<Rightarrow> string \<Rightarrow> bool cm" where
  "chat_iteration n buf c =
     bind_prog (try_block n buf c) (\<lambda>(r, c').
       case r of
         Inl e \<Rightarrow> catch_clauses e c'
       | Inr Continue \<Rightarrow> ret True c'
       | Inr (Proceed k) \<Rightarrow> finish_iteration k c')"

text \<open>
  The whole round: read a line into the buffer of \<open>MAX_ENCODED_LEN + 1\<close> bytes, then the rest.
  \<open>None\<close> while the thread waits for input.
\<close>

definition chat_round :: "conn \<Rightarrow> (bool result \<times> conn) thread_prog option" where
  "chat_round c =
     (case rio_readlineb (m_fdbuf c) (MAX_ENCODED_LEN + 1) (input c) of
        None \<Rightarrow> None
      | Some (n, buf, rp, ins) \<Rightarrow>
          Some (chat_iteration n buf (c\<lparr>m_fdbuf := rp, input := ins\<rparr>)))"

end
