(* ===== verification/Connection_Safety.thy ===== *)
theory Connection_Safety
  imports Client_Connection
begin

section \<open>Connections respect the locking discipline\<close>

text \<open>
  The check of theory \<open>Threads\<close>, carried through the handlers. \<open>cm_safe m c h Q\<close> says that \<open>m\<close>,
  started with connection \<open>c\<close> in ghost state \<open>h\<close>, performs only allowed actions and ends with a
  result, a connection and a ghost state in \<open>Q\<close>; its equations for the sequencing operators are
  the collection \<open>wp\<close>.

  \<open>conn_inv\<close> is the invariant of a connection between two rounds of its loop, and the summary
  theorem says that a round keeps it and can only leave the loop in the three ways of \<open>escapes\<close>.
\<close>

subsection \<open>Equations of the sequencing operators\<close>

lemma seq_ret [cm_simps]: "seq (ret x) f c = f x c"
  by (simp add: seq_def ret_def)

lemma seq_fail [cm_simps]: "seq (fail e) f c = Ret (Inl e, c)"
  by (simp add: seq_def fail_def)

lemma seq_throw [cm_simps]: "seq (throw x) f c = Ret (Inl (Raise x), c)"
  by (simp add: seq_def fail_def throw_def)

lemma seq_modify [cm_simps]: "seq (modify g) f c = f () (g c)"
  by (simp add: seq_def modify_def)

lemma seq_lift [cm_simps]: "seq (lift r) f c = (case r of Inl e \<Rightarrow> Ret (Inl e, c) | Inr x \<Rightarrow> f x c)"
  by (simp add: seq_def lift_def)

lemma seq_act [cm_simps]: "seq (act a) f c = Act a (\<lambda>r. f r c)"
  by (simp add: seq_def act_def)

lemma seq_call [cm_simps]: "seq (call p) f c = bind_prog p (\<lambda>x. f x c)"
  by (simp add: seq_def call_def bind_assoc)

lemma seq_respond [cm_simps]: "seq (respond t args) f c = f () (c\<lparr>response := mk_message t args\<rparr>)"
  by (simp add: respond_def seq_modify)

lemma seq_stack_push [cm_simps]:
  "seq (stack_push v) f c = f () (c\<lparr>client_stack := push v (client_stack c)\<rparr>)"
  by (simp add: stack_push_def seq_modify)

lemma seq_set_transaction_mode [cm_simps]:
  "seq (set_transaction_mode b) f c = f () (c\<lparr>transaction_mode := b\<rparr>)"
  by (simp add: set_transaction_mode_def seq_modify)

lemma seq_assoc [cm_simps]: "seq (seq m f) g c = seq m (\<lambda>x. seq (f x) g) c"
proof -
  have "(\<lambda>x. bind_prog (case x of (Inl e, c') \<Rightarrow> Ret (Inl e, c') | (Inr x, c') \<Rightarrow> f x c')
        (\<lambda>(r, c'). case r of Inl e \<Rightarrow> Ret (Inl e, c') | Inr x \<Rightarrow> g x c')) =
      (\<lambda>(r, c'). case r of Inl e \<Rightarrow> Ret (Inl e, c') | Inr x \<Rightarrow> seq (f x) g c')"
    by (auto simp: seq_def fun_eq_iff split: sum.splits)
  then show ?thesis by (simp add: seq_def bind_assoc case_prod_beta)
qed

lemmas cm_base [cm_simps] =
  ret_def fail_def throw_def modify_def lift_def respond_def stack_push_def set_transaction_mode_def

subsection \<open>The check, operator by operator\<close>

definition cm_safe_by ::
  "(action \<Rightarrow> 'h \<Rightarrow> bool) \<Rightarrow> (action \<Rightarrow> reply \<Rightarrow> 'h \<Rightarrow> bool) \<Rightarrow> (action \<Rightarrow> reply \<Rightarrow> 'h \<Rightarrow> 'h) \<Rightarrow>
   'a cm \<Rightarrow> conn \<Rightarrow> 'h \<Rightarrow> ('a result \<Rightarrow> conn \<Rightarrow> 'h \<Rightarrow> bool) \<Rightarrow> bool" where
  "cm_safe_by al an af m c h Q = safe_by al an af (m c) h (\<lambda>(r, c') h'. Q r c' h')"

abbreviation cm_safe :: "'a cm \<Rightarrow> conn \<Rightarrow> ghost \<Rightarrow> ('a result \<Rightarrow> conn \<Rightarrow> ghost \<Rightarrow> bool) \<Rightarrow> bool" where
  "cm_safe \<equiv> cm_safe_by allowed answers after"

lemmas cm_safe_def = cm_safe_by_def

lemma wp_ret [wp]: "cm_safe_by al an af (ret x) c h Q \<longleftrightarrow> Q (Inr x) c h"
  by (simp add: cm_safe_def ret_def)

lemma wp_fail [wp]: "cm_safe_by al an af (fail e) c h Q \<longleftrightarrow> Q (Inl e) c h"
  by (simp add: cm_safe_def fail_def)

lemma wp_throw [wp]: "cm_safe_by al an af (throw x) c h Q \<longleftrightarrow> Q (Inl (Raise x)) c h"
  by (simp add: cm_safe_def throw_def fail_def)

lemma wp_modify [wp]: "cm_safe_by al an af (modify f) c h Q \<longleftrightarrow> Q (Inr ()) (f c) h"
  by (simp add: cm_safe_def modify_def)

lemma wp_lift [wp]: "cm_safe_by al an af (lift r) c h Q \<longleftrightarrow> Q r c h"
  by (simp add: cm_safe_def lift_def)

lemma wp_act [wp]:
  "cm_safe_by al an af (act a) c h Q \<longleftrightarrow> al a h \<and> (\<forall>r. an a r h \<longrightarrow> Q (Inr r) c (af a r h))"
  by (simp add: cm_safe_def act_def)

lemma wp_call [wp]: "cm_safe_by al an af (call p) c h Q \<longleftrightarrow> safe_by al an af p h (\<lambda>x h'. Q (Inr x) c h')"
  by (simp add: cm_safe_def call_def safe_bind)

lemma wp_seq [wp]:
  "cm_safe_by al an af (seq m f) c h Q \<longleftrightarrow>
   cm_safe_by al an af m c h (\<lambda>r c' h'. case r of Inl e \<Rightarrow> Q (Inl e) c' h' | Inr x \<Rightarrow> cm_safe_by al an af (f x) c' h' Q)"
proof -
  have "(\<lambda>x h'. safe_by al an af (case x of (Inl e, c') \<Rightarrow> Ret (Inl e, c') | (Inr x, c') \<Rightarrow> f x c') h'
        (\<lambda>(r, c') h''. Q r c' h'')) =
      (\<lambda>(r, c') h'. case r of Inl e \<Rightarrow> Q (Inl e) c' h' | Inr x \<Rightarrow> safe_by al an af (f x c') h' (\<lambda>(r, c') h''. Q r c' h''))"
    by (auto simp: fun_eq_iff split: sum.splits)
  then show ?thesis unfolding cm_safe_def seq_def safe_bind by (simp only:)
qed

lemma wp_respond [wp]: "cm_safe_by al an af (respond t as) c h Q \<longleftrightarrow> Q (Inr ()) (c\<lparr>response := mk_message t as\<rparr>) h"
  by (simp add: respond_def wp_modify)

lemma wp_set_transaction_mode [wp]:
  "cm_safe_by al an af (set_transaction_mode b) c h Q \<longleftrightarrow> Q (Inr ()) (c\<lparr>transaction_mode := b\<rparr>) h"
  by (simp add: set_transaction_mode_def wp_modify)

lemma wp_stack_push [wp]:
  "cm_safe_by al an af (stack_push v) c h Q \<longleftrightarrow> Q (Inr ()) (c\<lparr>client_stack := push v (client_stack c)\<rparr>) h"
  by (simp add: stack_push_def wp_modify)

lemma cm_safe_mono:
  "cm_safe_by al an af m c h Q \<Longrightarrow> (\<And>r c' h'. Q r c' h' \<Longrightarrow> Q' r c' h') \<Longrightarrow> cm_safe_by al an af m c h Q'"
  unfolding cm_safe_def by (erule safe_mono) auto

subsection \<open>The invariant of a connection\<close>

definition short_stack :: "value_stack \<Rightarrow> bool" where
  "short_stack s \<longleftrightarrow> stack_ok s \<and> (\<forall>v\<in>set (stk s). length v \<le> MAX_VALUE)"

definition conn_inv :: "conn \<Rightarrow> ghost \<Rightarrow> bool" where
  "conn_inv c h \<longleftrightarrow>
     (case h of (H, K, D, L) \<Rightarrow>
       short_stack (client_stack c) \<and> Tables_lock \<notin> H \<and>
       H = Table_lock ` set (locked_tables c) \<union> L \<and> Table_lock ` set (locked_tables c) \<inter> L = {} \<and>
       set (locked_tables c) \<subseteq> K \<and> D \<subseteq> set (locked_tables c) \<and>
       sorted (locked_tables c) \<and> distinct (locked_tables c) \<and>
       (\<not> transaction_mode c \<longrightarrow> locked_tables c = []))"

text \<open>The same, when locks may have been lost since the ghost state was fixed.\<close>

definition conn_ok :: "conn \<Rightarrow> ghost \<Rightarrow> bool" where
  "conn_ok c h \<longleftrightarrow> (case h of (H, K, D, L) \<Rightarrow> \<exists>L'. L \<subseteq> L' \<and> conn_inv c (H, K, D, L'))"

text \<open>Table \<open>t\<close> is locked and can be used by a handler.\<close>

definition table_ready :: "tid \<Rightarrow> conn \<Rightarrow> ghost \<Rightarrow> bool" where
  "table_ready t c h \<longleftrightarrow>
     (case h of (H, K, D, L) \<Rightarrow> t \<in> K \<and> Table_lock t \<in> H \<and>
       (if transaction_mode c then t \<in> set (locked_tables c) \<and> conn_inv c (H, K, D - {t}, L)
        else Table_lock t \<notin> L \<and> conn_inv c (H - {Table_lock t}, K, D - {t}, L)))"

definition try_fails :: "failure \<Rightarrow> bool" where
  "try_fails e \<longleftrightarrow> e = oor \<or> e = Sigfpe \<or>
     (\<exists>m. length m \<le> 100 \<and> (e = Raise (OperationException m) \<or> e = Raise (FailedTransaction m) \<or>
        e = Raise (InvalidMessage m) \<or> e = Raise (CommException m)))"

definition handler_post :: "'a result \<Rightarrow> conn \<Rightarrow> ghost \<Rightarrow> bool" where
  "handler_post r c h \<longleftrightarrow>
     (case r of Inl e \<Rightarrow> conn_ok c h \<and> try_fails e
      | Inr _ \<Rightarrow> conn_inv c h \<and> (\<exists>w. encode (response c) = Inr w))"

lemma short_stack_push: "short_stack s \<Longrightarrow> length v \<le> MAX_VALUE \<Longrightarrow> short_stack (push v s)"
  by (auto simp: short_stack_def)

lemma short_stack_pop: "short_stack s \<Longrightarrow> pop s = Inr s' \<Longrightarrow> short_stack s'"
  using stack_ok_pop stk_pop unfolding short_stack_def by (metis list.set_intros(2))

lemma short_stack_top: "short_stack s \<Longrightarrow> get_top s = Inr v \<Longrightarrow> length v \<le> MAX_VALUE"
  by (auto simp: short_stack_def get_top_def split: if_splits list.splits)

lemma short_stack_top_fail:
  "short_stack s \<Longrightarrow> get_top s = Inl e \<Longrightarrow> e = Raise (OperationException ''Stack is empty'')"
  by (auto simp: short_stack_def stack_ok_def get_top_def split: if_splits list.splits)

lemma short_stack_pop_fail:
  "short_stack s \<Longrightarrow> pop s = Inl e \<Longrightarrow> e = Raise (OperationException ''Stack is empty'')"
  by (auto simp: short_stack_def stack_ok_def pop_def split: if_splits list.splits)

lemma wp_stack_pop:
  "short_stack (client_stack c) \<Longrightarrow>
   (\<And>s. pop (client_stack c) = Inr s \<Longrightarrow> short_stack s \<Longrightarrow> Q (Inr ()) (c\<lparr>client_stack := s\<rparr>) h) \<Longrightarrow>
   (is_empty (client_stack c) \<Longrightarrow> Q (Inl (Raise (OperationException ''Stack is empty''))) c h) \<Longrightarrow>
   cm_safe stack_pop c h Q"
proof (cases "is_empty (client_stack c)")
  case True
  assume "is_empty (client_stack c) \<Longrightarrow> Q (Inl (Raise (OperationException ''Stack is empty''))) c h"
  with True show ?thesis by (simp add: cm_safe_def stack_pop_def pop_empty fail_def)
next
  case False
  assume ss: "short_stack (client_stack c)"
    and Q: "\<And>s. pop (client_stack c) = Inr s \<Longrightarrow> short_stack s \<Longrightarrow> Q (Inr ()) (c\<lparr>client_stack := s\<rparr>) h"
  from ss False obtain s where "pop (client_stack c) = Inr s"
    using pop_nonempty by (auto simp: short_stack_def)
  with Q short_stack_pop [OF ss] show ?thesis by (simp add: cm_safe_def stack_pop_def ret_def)
qed

lemma try_fails_simps [simp]:
  "try_fails Sigfpe" "try_fails oor" "try_fails invalid_arguments"
  "try_fails (Raise (OperationException m)) \<longleftrightarrow> length m \<le> 100"
  "try_fails (Raise (InvalidMessage m)) \<longleftrightarrow> length m \<le> 100"
  "try_fails (Raise (FailedTransaction m)) \<longleftrightarrow> length m \<le> 100"
  "try_fails (Raise (CommException m)) \<longleftrightarrow> length m \<le> 100"
  by (auto simp: try_fails_def oor_def invalid_arguments_def)

lemma encode_OK [simp]: "encode (mk_message OK []) = Inr ''OK\<newline>''"
  by (simp add: encode_def MAX_ENCODED_LEN_def Let_def)

lemma encode_one:
  "length a \<le> MAX_VALUE \<Longrightarrow> t \<in> {DATA, FAILED, ERROR} \<Longrightarrow>
   length a \<le> 100 \<or> t = DATA \<Longrightarrow> \<exists>w. encode (mk_message t [a]) = Inr w"
  by (auto simp: encode_def MAX_ENCODED_LEN_def MAX_VALUE_def Let_def)


subsection \<open>The server operations and table locking\<close>

lemma safe_find_table:
  assumes "Tables_lock \<notin> H" and "\<And>p. Q p (H, case p of None \<Rightarrow> K | Some t \<Rightarrow> insert t K, D, L)"
  shows "safe (find_table n) (H, K, D, L) Q"
  using assms by (auto simp: find_table_def split: option.splits)

lemma safe_create_table: "Tables_lock \<notin> H \<Longrightarrow> Q () (H, K, D, L) \<Longrightarrow> safe (create_table n) (H, K, D, L) Q"
  by (simp add: create_table_def)

lemma conn_inv_K: "conn_inv c (H, K, D, L) \<Longrightarrow> conn_inv c (H, insert t K, D, L)"
  by (auto simp: conn_inv_def)

lemma conn_inv_ok [simp]: "conn_inv c h \<Longrightarrow> conn_ok c h"
  by (cases h) (auto simp: conn_ok_def)

lemma conn_ok_cases:
  assumes "conn_ok c (H, K, D, L)"
  obtains L' where "L \<subseteq> L'" and "conn_inv c (H, K, D, L')"
  using assms by (auto simp: conn_ok_def)

lemma conn_inv_response [simp]: "conn_inv (c\<lparr>response := m\<rparr>) h \<longleftrightarrow> conn_inv c h"
  by (simp add: conn_inv_def)

lemma conn_ok_response [simp]: "conn_ok (c\<lparr>response := m\<rparr>) h \<longleftrightarrow> conn_ok c h"
  by (simp add: conn_ok_def)

lemma conn_inv_stack:
  "conn_inv c h \<Longrightarrow> short_stack s \<Longrightarrow> conn_inv (c\<lparr>client_stack := s\<rparr>) h"
  by (auto simp: conn_inv_def)

lemma conn_inv_short: "conn_inv c h \<Longrightarrow> short_stack (client_stack c)"
  by (auto simp: conn_inv_def)

lemma table_ready_short: "table_ready t c h \<Longrightarrow> short_stack (client_stack c)"
  by (auto simp: table_ready_def conn_inv_def split: if_splits)

lemma table_ready_stack:
  "table_ready t c h \<Longrightarrow> short_stack s \<Longrightarrow> table_ready t (c\<lparr>client_stack := s\<rparr>) h"
  by (auto simp: table_ready_def conn_inv_def split: if_splits)

lemma table_ready_known: "table_ready t c (H, K, D, L) \<Longrightarrow> t \<in> K \<and> Table_lock t \<in> H"
  by (simp add: table_ready_def)

lemma table_ready_changed: "table_ready t c (H, K, D, L) \<Longrightarrow> table_ready t c (H, K, insert t D, L)"
  by (simp add: table_ready_def)

text \<open>A handler that stops there, in autocommit mode, loses the lock.\<close>

lemma table_ready_lost:
  assumes "table_ready t c (H, K, D, L)" and "t \<notin> D \<or> transaction_mode c"
  shows "conn_ok c (H, K, D, L)"
proof (cases "transaction_mode c")
  case True
  then have "conn_inv c (H, K, D, L)" using assms by (auto simp: table_ready_def conn_inv_def)
  then show ?thesis by (rule conn_inv_ok)
next
  case False
  then have "conn_inv c (H, K, D, insert (Table_lock t) L)"
    using assms by (auto simp: table_ready_def conn_inv_def)
  then show ?thesis by (auto simp: conn_ok_def)
qed

lemma wp_handle_table_locking:
  assumes inv: "conn_inv c (H, K, D, L)" and t: "t \<in> K"
    and after_lock: "\<And>c' H'. table_ready t c' (H', K, D, L) \<Longrightarrow> t \<notin> D \<or> transaction_mode c' \<Longrightarrow>
      Q (Inr ()) c' (H', K, D, L)"
    and busy: "Q (Inl (Raise (FailedTransaction ''Failed to acquire lock''))) c (H, K, D, L)"
  shows "cm_safe (handle_table_locking t) c (H, K, D, L) Q"
proof -
  consider (auto) "\<not> transaction_mode c" | (held) "transaction_mode c" "t \<in> set (locked_tables c)"
    | (try_it) "transaction_mode c" "t \<notin> set (locked_tables c)" by blast
  then show ?thesis
  proof cases
    case auto
    then have "cm_safe (handle_table_locking t) c (H, K, D, L) Q =
        cm_safe (seq (act (Lock_table t)) (\<lambda>_. ret ())) c (H, K, D, L) Q"
      by (simp add: cm_safe_def handle_table_locking_def)
    moreover have "H \<subseteq> L" "t \<notin> D" using inv auto by (auto simp: conn_inv_def)
    moreover have "Q (Inr ()) c (insert (Table_lock t) H, K, D, L)" if "Table_lock t \<notin> H"
      using inv t auto that by (intro after_lock) (auto simp: table_ready_def conn_inv_def)
    ultimately show ?thesis using t by (simp add: wp)
  next
    case held
    then have "cm_safe (handle_table_locking t) c (H, K, D, L) Q = Q (Inr ()) c (H, K, D, L)"
      by (simp add: cm_safe_def handle_table_locking_def table_is_locked_def ret_def)
    moreover have "table_ready t c (H, K, D, L)" using inv t held by (auto simp: table_ready_def conn_inv_def)
    ultimately show ?thesis using after_lock held by simp
  next
    case try_it
    let ?c = "c\<lparr>locked_tables := insort_insert t (locked_tables c)\<rparr>"
    let ?f = "\<lambda>r. if r = RBool True then modify (\<lambda>c. c\<lparr>locked_tables := insort_insert t (locked_tables c)\<rparr>)
        else throw (FailedTransaction ''Failed to acquire lock'')"
    have "cm_safe (handle_table_locking t) c (H, K, D, L) Q = cm_safe (seq (act (Trylock_table t)) ?f) c (H, K, D, L) Q"
      using try_it by (simp add: cm_safe_def handle_table_locking_def table_is_locked_def)
    moreover have "Q (Inr ()) ?c (insert (Table_lock t) H, K, D, L)" if "Table_lock t \<notin> H"
      using inv t try_it that
      by (intro after_lock) (auto simp: table_ready_def conn_inv_def sorted_insort_insert distinct_insort_insert
          set_insort_insert)
    ultimately show ?thesis using t busy by (auto simp: wp)
  qed
qed

lemma wp_rollback_each:
  "\<lbrakk>set ts \<subseteq> K; Table_lock ` set ts \<subseteq> H; Table_lock ` set ts \<inter> L = {}; distinct ts;
    Q (Inr ()) c (H - Table_lock ` set ts, K, D - set ts, L)\<rbrakk> \<Longrightarrow>
   cm_safe (rollback_each ts) c (H, K, D, L) Q"
proof (induction ts arbitrary: H D)
  case Nil
  then show ?case by (simp add: wp)
next
  case (Cons t ts)
  have "H - {Table_lock t} - Table_lock ` set ts = H - Table_lock ` set (t # ts)"
    "D - {t} - set ts = D - set (t # ts)" by auto
  with Cons show ?case by (auto simp: wp intro!: Cons.IH)
qed

lemma wp_commit_each:
  "\<lbrakk>set ts \<subseteq> K; Table_lock ` set ts \<subseteq> H; Table_lock ` set ts \<inter> L = {}; distinct ts;
    Q (Inr ()) c (H - Table_lock ` set ts, K, D - set ts, L)\<rbrakk> \<Longrightarrow>
   cm_safe (commit_each ts) c (H, K, D, L) Q"
proof (induction ts arbitrary: H D)
  case Nil
  then show ?case by (simp add: wp)
next
  case (Cons t ts)
  have "H - {Table_lock t} - Table_lock ` set ts = H - Table_lock ` set (t # ts)"
    "D - {t} - set ts = D - set (t # ts)" by auto
  with Cons show ?case by (auto simp: wp intro!: Cons.IH)
qed

text \<open>After a commit or a rollback the transaction's locks, and only those, have been given back.\<close>

lemma wp_release_all:
  assumes inv: "conn_inv c (H, K, D, L')" and "L \<subseteq> L'"
    and Q: "conn_inv (c\<lparr>locked_tables := []\<rparr>) (L', K, {}, L') \<Longrightarrow> Q (Inr ()) (c\<lparr>locked_tables := []\<rparr>) (L', K, {}, L)"
  shows "cm_safe rollback_tables c (H, K, D, L) Q" and "cm_safe commit_tables c (H, K, D, L) Q"
proof -
  have HD: "H - Table_lock ` set (locked_tables c) = L'" "D - set (locked_tables c) = {}"
    using inv by (auto simp: conn_inv_def)
  have inv': "conn_inv (c\<lparr>locked_tables := []\<rparr>) (L', K, {}, L')"
    using inv by (auto simp: conn_inv_def)
  have pre: "set (locked_tables c) \<subseteq> K" "Table_lock ` set (locked_tables c) \<subseteq> H" "distinct (locked_tables c)"
      "Table_lock ` set (locked_tables c) \<inter> L = {}"
    using inv \<open>L \<subseteq> L'\<close> by (auto simp: conn_inv_def)
  have "cm_safe (seq (rollback_each (locked_tables c)) (\<lambda>_. modify (\<lambda>c. c\<lparr>locked_tables := []\<rparr>))) c (H, K, D, L) Q"
    using pre Q [OF inv'] unfolding wp by (intro wp_rollback_each) (simp_all add: HD)
  then show "cm_safe rollback_tables c (H, K, D, L) Q" by (simp add: cm_safe_def rollback_tables_def)
  have "cm_safe (seq (commit_each (locked_tables c)) (\<lambda>_. modify (\<lambda>c. c\<lparr>locked_tables := []\<rparr>))) c (H, K, D, L) Q"
    using pre Q [OF inv'] unfolding wp by (intro wp_commit_each) (simp_all add: HD)
  then show "cm_safe commit_tables c (H, K, D, L) Q" by (simp add: cm_safe_def commit_tables_def)
qed

lemma wp_autocommit:
  assumes ready: "table_ready t c (H, K, D, L)"
    and Q: "\<And>H' D'. conn_inv c (H', K, D', L) \<Longrightarrow> Q (Inr ()) c (H', K, D', L)"
  shows "cm_safe (autocommit t) c (H, K, D, L) Q"
proof (cases "transaction_mode c")
  case True
  then have "cm_safe (autocommit t) c (H, K, D, L) Q = Q (Inr ()) c (H, K, D, L)"
    by (simp add: cm_safe_def autocommit_def ret_def)
  moreover have "conn_inv c (H, K, D, L)" using ready True by (auto simp: table_ready_def conn_inv_def)
  ultimately show ?thesis using Q by simp
next
  case False
  then have "cm_safe (autocommit t) c (H, K, D, L) Q =
      cm_safe (seq (act (Commit t)) (\<lambda>_. seq (act (Unlock_table t)) (\<lambda>_. ret ()))) c (H, K, D, L) Q"
    by (simp add: cm_safe_def autocommit_def)
  with ready False Q show ?thesis by (simp add: wp table_ready_def)
qed


subsection \<open>The handlers\<close>

lemma handler_post_OK [simp]:
  "handler_post (Inr x) (c\<lparr>response := mk_message OK []\<rparr>) h \<longleftrightarrow> conn_inv c h"
  by (simp add: handler_post_def del: message_sels)

lemma handler_post_Inl [simp]: "handler_post (Inl e) c h \<longleftrightarrow> conn_ok c h \<and> try_fails e"
  by (simp add: handler_post_def)

lemma no_tables_lock: "conn_inv c (H, K, D, L) \<Longrightarrow> Tables_lock \<notin> H"
  by (auto simp: conn_inv_def)

lemma wp_create:
  assumes "is_valid req" and "get_message_type req = CREATE" and "conn_inv c (H, K, D, L)"
  shows "cm_safe (create_request_handler req) c (H, K, D, L) handler_post"
  unfolding create_request_handler_def
  using assms valid_get_table [of req]
  by (auto simp: wp no_tables_lock conn_inv_K intro!: safe_find_table safe_create_table
      split: option.splits)

lemma wp_push:
  assumes "is_valid req" and "get_message_type req = PUSH" and "conn_inv c h"
    and "total_length (m_args req) \<le> MAX_VALUE"
  shows "cm_safe (push_request_handler req) c h handler_post"
proof -
  obtain a where "m_args req = [a]" using is_valid_args_1 [OF assms(1)] assms(2) by auto
  with assms(4) have "length (m_args req ! 0) \<le> MAX_VALUE" by simp
  with assms valid_get_value [of req] show ?thesis
    unfolding push_request_handler_def
    by (simp add: wp conn_inv_stack short_stack_push conn_inv_short)
qed

lemma wp_pop:
  assumes "conn_inv c h"
  shows "cm_safe (pop_request_handler req) c h handler_post"
proof -
  have "cm_safe (seq stack_pop (\<lambda>_. respond OK [])) c h handler_post"
    using assms by (auto simp: wp conn_inv_short conn_inv_stack intro!: wp_stack_pop)
  with assms show ?thesis
    by (simp add: cm_safe_def pop_request_handler_def throw_def fail_def)
qed

lemma cm_safe_stack_top: "cm_safe stack_top c h Q \<longleftrightarrow> Q (get_top (client_stack c)) c h"
  by (simp add: cm_safe_def stack_top_def lift_def)

lemma wp_top:
  assumes "conn_inv c h"
  shows "cm_safe (top_request_handler req) c h handler_post"
proof -
  have "cm_safe (seq stack_top (\<lambda>v. respond DATA [v])) c h handler_post"
    using assms short_stack_top_fail [OF conn_inv_short [OF assms]] short_stack_top [OF conn_inv_short [OF assms]]
    by (auto simp: wp cm_safe_stack_top handler_post_def encode_one split: sum.splits)
  with assms show ?thesis
    by (simp add: cm_safe_def top_request_handler_def throw_def fail_def)
qed

lemma wp_get:
  assumes "is_valid req" and "get_message_type req = GET" and inv: "conn_inv c (H, K, D, L)"
  shows "cm_safe (get_request_handler req) c (H, K, D, L) handler_post"
proof -
  have body: "cm_safe (seq (lift (get_key req)) (\<lambda>key.
           seq (act (Get t key)) (\<lambda>r.
           seq (lift (case r of RStr v \<Rightarrow> v | _ \<Rightarrow> Inr [])) (\<lambda>cur_val.
           seq (stack_push cur_val) (\<lambda>_.
           seq (autocommit t) (\<lambda>_.
           respond OK [])))))) c (H, K, D, L) handler_post"
    if ready: "table_ready t c (H, K, D, L)" for t c H K D L
    using table_ready_known [OF ready] assms(1,2) valid_get_key [of req]
      table_ready_stack [OF ready short_stack_push [OF table_ready_short [OF ready]]]
    by (auto simp: wp intro!: wp_autocommit)
  have rest: "cm_safe (seq (handle_table_locking t) (\<lambda>_.
           seq (lift (get_key req)) (\<lambda>key.
           seq (act (Get t key)) (\<lambda>r.
           seq (lift (case r of RStr v \<Rightarrow> v | _ \<Rightarrow> Inr [])) (\<lambda>cur_val.
           seq (stack_push cur_val) (\<lambda>_.
           seq (autocommit t) (\<lambda>_.
           respond OK []))))))) c (H, insert t K, D, L) handler_post" for t
    unfolding wp_seq [of _ _ _ "handle_table_locking t"]
    using conn_inv_K [OF inv] by (intro wp_handle_table_locking) (auto intro!: body)
  with assms valid_get_table [of req] show ?thesis
    unfolding get_request_handler_def
    by (auto simp: wp_seq wp_lift wp_call wp_throw no_tables_lock conn_inv_K
        intro!: safe_find_table split: option.splits)
qed

lemma wp_if [wp]:
  "cm_safe_by al an af (\<lambda>c. if P c then m c else m' c) c h Q \<longleftrightarrow> (if P c then cm_safe_by al an af m c h Q else cm_safe_by al an af m' c h Q)"
  by (simp add: cm_safe_def)

lemma wp_set:
  assumes "is_valid req" and "get_message_type req = SET" and inv: "conn_inv c (H, K, D, L)"
  shows "cm_safe (set_request_handler req) c (H, K, D, L) handler_post"
proof -
  have store: "cm_safe (seq (lift (get_key req)) (\<lambda>key.
               seq (act (Put t key v)) (\<lambda>_.
               seq (autocommit t) (\<lambda>_.
               respond OK [])))) c (H, K, D, L) handler_post"
    if ready: "table_ready t c (H, K, D, L)" and "length v \<le> MAX_VALUE" for t v c H K D L
    using that(2) table_ready_known [OF ready] table_ready_changed [OF ready] assms(1,2) valid_get_key [of req]
    by (auto simp: wp intro!: wp_autocommit)
  have body: "cm_safe (seq stack_top (\<lambda>popped_val.
               seq stack_pop (\<lambda>_.
               seq (lift (get_key req)) (\<lambda>key.
               seq (act (Put t key popped_val)) (\<lambda>_.
               seq (autocommit t) (\<lambda>_.
               respond OK [])))))) c (H, K, D, L) handler_post"
    if ready: "table_ready t c (H, K, D, L)" and full: "\<not> is_empty (client_stack c)" for c H K D L t
  proof -
    note short = table_ready_short [OF ready]
    obtain v where v: "get_top (client_stack c) = Inr v" "length v \<le> MAX_VALUE"
      using get_top_nonempty [OF _ full] short short_stack_top [OF short] by (auto simp: short_stack_def)
    have "cm_safe (seq stack_pop (\<lambda>_.
               seq (lift (get_key req)) (\<lambda>key.
               seq (act (Put t key v)) (\<lambda>_.
               seq (autocommit t) (\<lambda>_.
               respond OK []))))) c (H, K, D, L) handler_post"
      unfolding wp_seq [of _ _ _ stack_pop]
      using full short store [OF table_ready_stack [OF ready] v(2)] by (intro wp_stack_pop) auto
    with v show ?thesis by (simp add: wp_seq [of _ _ _ stack_top] cm_safe_stack_top)
  qed
  have rest: "cm_safe (seq (handle_table_locking t) (\<lambda>_ c.
             if is_empty (client_stack c) then throw (OperationException ''Stack is empty'') c
             else seq stack_top (\<lambda>popped_val.
               seq stack_pop (\<lambda>_.
               seq (lift (get_key req)) (\<lambda>key.
               seq (act (Put t key popped_val)) (\<lambda>_.
               seq (autocommit t) (\<lambda>_.
               respond OK []))))) c)) c (H, insert t K, D, L) handler_post" for t
    unfolding wp_seq [of _ _ _ "handle_table_locking t"]
    using conn_inv_K [OF inv]
    by (intro wp_handle_table_locking) (auto simp: wp_if wp_throw intro!: body table_ready_lost)
  with assms valid_get_table [of req] show ?thesis
    unfolding set_request_handler_def
    by (auto simp: wp_seq wp_lift wp_call wp_throw no_tables_lock conn_inv_K
        intro!: safe_find_table split: option.splits)
qed

lemma wp_catch_std:
  "cm_safe_by al an af (\<lambda>c. bind_prog (m c) (\<lambda>(r, c'). case r of Inl (Raise e) \<Rightarrow> Ret (Inr None, c') | _ \<Rightarrow> Ret (r, c'))) c h Q \<longleftrightarrow>
   cm_safe_by al an af m c h (\<lambda>r c' h'. Q (case r of Inl (Raise e) \<Rightarrow> Inr None | _ \<Rightarrow> r) c' h')"
proof -
  have "(\<lambda>x h'. safe_by al an af (case x of (r, c') \<Rightarrow> case r of Inl (Raise e) \<Rightarrow> Ret (Inr None, c') | _ \<Rightarrow> Ret (r, c')) h'
        (\<lambda>(r, c') h''. Q r c' h'')) =
      (\<lambda>(r, c') h'. Q (case r of Inl (Raise e) \<Rightarrow> Inr None | _ \<Rightarrow> r) c' h')"
    by (auto simp: fun_eq_iff split: sum.splits failure.splits)
  then show ?thesis unfolding cm_safe_def safe_bind by (simp only:)
qed

definition operands_post :: "(int64 \<times> int64) option result \<Rightarrow> conn \<Rightarrow> ghost \<Rightarrow> bool" where
  "operands_post r c h \<longleftrightarrow> conn_inv c h \<and>
     (r = Inr None \<or> (\<exists>x y. int32 x \<and> int32 y \<and> r = Inr (Some (word_of_int x, word_of_int y))))"

lemma wp_pop_two_values:
  assumes "conn_inv c h"
  shows "cm_safe pop_two_values c h operands_post"
proof -
  let ?Q = "\<lambda>r c' h'. operands_post (case r of Inl (Raise e) \<Rightarrow> Inr None | _ \<Rightarrow> r) c' h'"
  have fails: "?Q (Inl (Raise e)) c' h'" if "conn_inv c' h'" for e c' h'
    using that by (simp add: operands_post_def)
  have read: "cm_safe (seq (lift (stoi pop1)) (\<lambda>val1. seq (lift (stoi pop2)) (\<lambda>val2.
        ret (Some (word_of_int val1, word_of_int val2))))) c' h' ?Q" if "conn_inv c' h'" for pop1 pop2 c' h'
    using that stoi_fail [of pop1] stoi_fail [of pop2] stoi_range [of pop1] stoi_range [of pop2]
    by (fastforce simp: wp operands_post_def int32_def split: sum.splits failure.splits)
  have top: "cm_safe (seq stack_top f) c' h' ?Q"
    if "conn_inv c' h'" "\<And>v. cm_safe (f v) c' h' ?Q" for f c' h'
    using that fails [OF that(1)] short_stack_top_fail [OF conn_inv_short [OF that(1)]]
    by (auto simp: wp cm_safe_stack_top split: sum.splits)
  have pop: "cm_safe (seq stack_pop f) c' h' ?Q"
    if "conn_inv c' h'" "\<And>s. short_stack s \<Longrightarrow> cm_safe (f ()) (c'\<lparr>client_stack := s\<rparr>) h' ?Q" for f c' h'
    using that fails [OF that(1)] by (auto simp: wp_seq conn_inv_short intro!: wp_stack_pop)
  show ?thesis
    unfolding pop_two_values_def wp_catch_std
    using assms by (intro top pop read) (auto simp: conn_inv_stack)
qed

lemma wp_arithmetic:
  assumes "conn_inv c h" and "\<And>a b e. op a b = Inl e \<Longrightarrow> e = Sigfpe"
  shows "cm_safe (arithmetic_request_handler req op) c h handler_post"
proof -
  have result: "cm_safe (seq (lift (op a b)) (\<lambda>result. seq (stack_push (to_string result)) (\<lambda>_. respond OK [])))
      c' h' handler_post" if "conn_inv c' h'" for a b c' h'
  proof -
    have "length (to_string w) \<le> MAX_VALUE" for w
      using length_to_string [of w] by (simp add: MAX_VALUE_def)
    with that assms(2) [of a b] show ?thesis
      by (auto simp: wp conn_inv_stack short_stack_push conn_inv_short split: sum.splits)
  qed
  show ?thesis
    unfolding arithmetic_request_handler_def wp_seq [of _ _ _ pop_two_values]
    using assms(1)
    by (rule cm_safe_mono [OF wp_pop_two_values])
      (auto simp: operands_post_def wp_throw intro!: result split: option.splits)
qed

lemma wp_then_ret:
  "cm_safe m c h handler_post \<Longrightarrow> cm_safe (seq m (\<lambda>_. ret x)) c h handler_post"
  unfolding wp_seq by (erule cm_safe_mono) (auto simp: wp_ret handler_post_def split: sum.splits)

lemma wp_dispatch:
  assumes "is_valid req" and "conn_inv c h"
    and "get_message_type req = PUSH \<Longrightarrow> total_length (m_args req) \<le> MAX_VALUE"
  shows "cm_safe (dispatch req) c h handler_post"
proof -
  obtain H K D L where h: "h = (H, K, D, L)" by (cases h) auto
  have commit: "cm_safe (seq commit_tables (\<lambda>_. seq (set_transaction_mode False) (\<lambda>_.
      seq (respond OK []) (\<lambda>_. ret True)))) c (H, K, D, L) handler_post"
    unfolding wp_seq [of _ _ _ commit_tables]
  proof (rule wp_release_all(2) [OF assms(2) [unfolded h]], goal_cases)
    case 2
    then have "conn_inv (c\<lparr>locked_tables := [], transaction_mode := False\<rparr>) (L, K, {}, L)"
      by (auto simp: conn_inv_def)
    then show ?case by (simp add: wp)
  qed simp
  have start: "cm_safe (seq (respond OK []) (\<lambda>_. seq (set_transaction_mode True) (\<lambda>_. ret True))) c h handler_post"
    using assms(2) by (auto simp: wp conn_inv_def handler_post_def)
  have bye: "cm_safe (seq (respond OK []) (\<lambda>_. ret False)) c h handler_post"
    using assms(2) by (auto simp: wp)
  have ar: "cm_safe (arithmetic_request_handler req op_add) c (H, K, D, L) handler_post"
    "cm_safe (arithmetic_request_handler req op_mul) c (H, K, D, L) handler_post"
    "cm_safe (arithmetic_request_handler req op_sub) c (H, K, D, L) handler_post"
    "cm_safe (arithmetic_request_handler req op_div) c (H, K, D, L) handler_post"
    using assms(2) h
    by (auto simp: op_add_def op_mul_def op_sub_def op_div_def intro!: wp_arithmetic split: if_splits)
  have other: "cm_safe (throw (InvalidMessage ''Invalid message sent'')) c h (handler_post :: bool result \<Rightarrow> _)"
    using assms(2) by (simp add: wp)
  show ?thesis
    using assms commit start bye other h ar
    by (cases "get_message_type req")
      (simp_all add: dispatch_def wp_create wp_push wp_pop wp_top wp_set wp_get wp_then_ret)
qed

subsection \<open>One round of the loop\<close>

definition escapes :: "failure \<Rightarrow> bool" where
  "escapes e \<longleftrightarrow> e = oor \<or> e = Sigfpe \<or>
     e = Raise (FailedTransaction ''operation failed during transaction'')"

definition round_post :: "bool result \<Rightarrow> conn \<Rightarrow> ghost \<Rightarrow> bool" where
  "round_post r c h \<longleftrightarrow> (case r of Inr _ \<Rightarrow> conn_ok c h | Inl e \<Rightarrow> escapes e)"

lemma conn_inv_irrelevant [simp]:
  "conn_inv (c\<lparr>sent := x\<rparr>) h \<longleftrightarrow> conn_inv c h" "conn_inv (c\<lparr>logged_in := b\<rparr>) h \<longleftrightarrow> conn_inv c h"
  "conn_inv (c\<lparr>m_fdbuf := rp, input := ins\<rparr>) h \<longleftrightarrow> conn_inv c h"
  by (simp_all add: conn_inv_def)

lemma conn_ok_irrelevant [simp]: "conn_ok (c\<lparr>sent := x\<rparr>) h \<longleftrightarrow> conn_ok c h"
  by (simp add: conn_ok_def)

lemma wp_return_response:
  assumes "encode (response c) = Inr w"
  shows "cm_safe return_response_to_client c h Q \<longleftrightarrow> Q (Inr ()) (c\<lparr>sent := sent c @ [w]\<rparr>) h"
proof -
  have "cm_safe return_response_to_client c h Q =
      cm_safe (seq (lift (encode (response c))) (\<lambda>w. modify (\<lambda>c. c\<lparr>sent := sent c @ [w]\<rparr>))) c h Q"
    by (simp add: cm_safe_def return_response_to_client_def)
  with assms show ?thesis by (simp add: wp)
qed

lemma wp_finish:
  assumes "conn_ok c h" and "\<exists>w. encode (response c) = Inr w"
  shows "cm_safe (finish_iteration k) c h round_post"
proof -
  obtain w where "encode (response c) = Inr w" using assms(2) by blast
  with assms(1) show ?thesis
    unfolding finish_iteration_def by (simp add: wp wp_return_response round_post_def)
qed

lemma wp_catch:
  assumes "conn_ok c h" and "try_fails e"
  shows "cm_safe (catch_clauses e) c h round_post"
proof -
  obtain H K D L where h: "h = (H, K, D, L)" by (cases h) auto
  have reply: "cm_safe (seq (respond t [m]) (\<lambda>_. finish_iteration k)) c' h' round_post"
    if "conn_ok c' h'" "length m \<le> 100" "t = FAILED \<or> t = ERROR" for t m k c' h'
  proof -
    have "\<exists>w. encode (mk_message t [m]) = Inr w"
      using that(2,3) by (intro encode_one) (auto simp: MAX_VALUE_def)
    then have "cm_safe (finish_iteration k) (c'\<lparr>response := mk_message t [m]\<rparr>) h' round_post"
      using that(1) by (intro wp_finish) simp_all
    then show ?thesis by (simp add: wp_seq wp_respond)
  qed
  obtain L' where inv: "conn_inv c (H, K, D, L')" and L': "L \<subseteq> L'"
    using assms(1) unfolding h by (rule conn_ok_cases)
  have rollback: "cm_safe (seq rollback_tables (\<lambda>_. seq (set_transaction_mode False) (\<lambda>_.
      seq (respond FAILED [m]) (\<lambda>_. finish_iteration True)))) c (H, K, D, L) round_post" if "length m \<le> 100" for m
    unfolding wp_seq [of _ _ _ rollback_tables]
  proof (intro wp_release_all [OF inv L'], goal_cases)
    case 1
    then have "conn_ok (c\<lparr>locked_tables := [], transaction_mode := False\<rparr>) (L', K, {}, L)"
      using L' by (auto simp: conn_inv_def conn_ok_def)
    then show ?case
      using that by (auto simp: wp_seq [of _ _ _ "set_transaction_mode b" for b] wp_set_transaction_mode intro!: reply)
  qed
  from assms(2) consider (operation) m where "e = Raise (OperationException m)" "length m \<le> 100"
    | (transaction) m where "e = Raise (FailedTransaction m)" "length m \<le> 100"
    | (message) m where "e = Raise (InvalidMessage m)" "length m \<le> 100"
    | (comm) m where "e = Raise (CommException m)" "length m \<le> 100"
    | (other) "e = oor \<or> e = Sigfpe"
    unfolding try_fails_def by blast
  then show ?thesis
  proof cases
    case operation
    then have "cm_safe (catch_clauses e) c h round_post =
        (if transaction_mode c
         then cm_safe (throw (FailedTransaction ''operation failed during transaction'')) c h round_post
         else cm_safe (seq (respond FAILED [m]) (\<lambda>_. finish_iteration True)) c h round_post)"
      by (simp add: cm_safe_def catch_clauses_def)
    then show ?thesis
      using reply [OF assms(1) operation(2)] by (simp add: wp_throw round_post_def escapes_def)
  next
    case transaction
    then show ?thesis using rollback h by (simp add: cm_safe_def catch_clauses_def)
  next
    case message
    then show ?thesis using reply [OF assms(1) message(2)] by (simp add: cm_safe_def catch_clauses_def)
  next
    case comm
    then show ?thesis using reply [OF assms(1) comm(2)] by (simp add: cm_safe_def catch_clauses_def)
  next
    case other
    then show ?thesis
      by (auto simp: cm_safe_def catch_clauses_def fail_def round_post_def escapes_def oor_def)
  qed
qed

lemma wp_try_block:
  assumes "conn_inv c h"
  shows "cm_safe (try_block n buf) c h handler_post"
proof (cases "n \<le> 0")
  case True
  with assms show ?thesis by (simp add: try_block_def wp_throw)
next
  case False
  let ?s = "c_string buf"
  show ?thesis
  proof (cases "decode ?s")
    case (Inl e)
    then have "try_fails e" by (cases rule: decode_fail_cases) auto
    with Inl False assms show ?thesis by (simp add: try_block_def wp_seq wp_lift)
  next
    case (Inr req)
    then have valid: "is_valid req" by (rule decode_is_valid)
    have size: "total_length (m_args req) \<le> MAX_VALUE" if push: "get_message_type req = PUSH"
    proof -
      obtain a where "m_args req = [a]" using is_valid_args_1 [OF valid] push by auto
      then have "m_args req \<noteq> []" by simp
      with decode_length(2,3) [OF Inr] push show ?thesis by (simp add: MAX_VALUE_def)
    qed
    have login: "cm_safe (seq (modify (\<lambda>c. c\<lparr>logged_in := True\<rparr>)) (\<lambda>_. seq (respond OK []) (\<lambda>_.
          seq return_response_to_client (\<lambda>_. ret Continue)))) c h handler_post"
      using assms by (simp add: wp wp_return_response handler_post_def)
    have go: "cm_safe (seq (dispatch req) (\<lambda>k. ret (Proceed k))) c h handler_post"
      unfolding wp_seq
      by (rule cm_safe_mono [OF wp_dispatch [OF valid assms size]])
        (auto simp: wp_ret handler_post_def split: sum.splits)
    have "(\<lambda>request. if \<not> is_valid request then fail invalid_arguments
        else if get_message_type request = LOGIN then
          seq (modify (\<lambda>c. c\<lparr>logged_in := True\<rparr>)) (\<lambda>_. seq (respond OK []) (\<lambda>_.
          seq return_response_to_client (\<lambda>_. ret Continue)))
        else (\<lambda>c. if \<not> logged_in c then throw (InvalidMessage ''User not logged in'') c
          else seq (dispatch request) (\<lambda>k. ret (Proceed k)) c)) req =
      (if get_message_type req = LOGIN then
          seq (modify (\<lambda>c. c\<lparr>logged_in := True\<rparr>)) (\<lambda>_. seq (respond OK []) (\<lambda>_.
          seq return_response_to_client (\<lambda>_. ret Continue)))
        else (\<lambda>c. if \<not> logged_in c then throw (InvalidMessage ''User not logged in'') c
          else seq (dispatch req) (\<lambda>k. ret (Proceed k)) c))"
      using valid by simp
    with Inr False valid login go assms show ?thesis
      by (simp add: try_block_def wp_seq [of _ _ _ "lift r" for r] wp_lift wp_if wp_throw)
  qed
qed

theorem chat_iteration_safe:
  assumes "conn_inv c h"
  shows "cm_safe (chat_iteration n buf) c h round_post"
proof -
  have "safe (try_block n buf c) h (\<lambda>x h'. safe (case x of (r, c') \<Rightarrow> (case r of
         Inl e \<Rightarrow> catch_clauses e c'
       | Inr Continue \<Rightarrow> ret True c'
       | Inr (Proceed k) \<Rightarrow> finish_iteration k c')) h' (\<lambda>(r, c') h'. round_post r c' h'))"
    using wp_try_block [OF assms, of n buf] unfolding cm_safe_def
  proof (rule safe_mono, clarify)
    fix r :: "flow result" and c' H K D L
    assume p: "handler_post r c' (H, K, D, L)"
    show "safe (case r of Inl e \<Rightarrow> catch_clauses e c' | Inr Continue \<Rightarrow> ret True c'
       | Inr (Proceed k) \<Rightarrow> finish_iteration k c') (H, K, D, L) (\<lambda>(r, c') h'. round_post r c' h')"
    proof (cases r)
      case (Inl e)
      with p wp_catch [of c' "(H, K, D, L)" e] show ?thesis by (simp add: cm_safe_def)
    next
      case (Inr f)
      with p have "conn_inv c' (H, K, D, L)" "\<exists>w. encode (response c') = Inr w"
        by (simp_all add: handler_post_def)
      with Inr wp_finish [of c' "(H, K, D, L)"] show ?thesis
        by (cases f) (simp_all add: cm_safe_def ret_def round_post_def)
    qed
  qed
  then show ?thesis unfolding cm_safe_def chat_iteration_def safe_bind .
qed

subsection \<open>Properties\<close>

text \<open>C19. Nothing is done for a client that has not logged in: any valid request but \<open>LOGIN\<close> is
  answered with an \<open>ERROR\<close> and the end of the connection, without a single action on the
  tables, their mutexes or the stack.\<close>
theorem login_required:
  assumes "\<not> logged_in c" and "0 < n" and "decode (c_string buf) = Inr req" and "get_message_type req \<noteq> LOGIN"
  shows "chat_iteration n buf c =
    Ret (Inr False, c\<lparr>response := mk_message ERROR [''User not logged in''],
      sent := sent c @ [''ERROR User not logged in\<newline>'']\<rparr>)"
proof -
  have "is_valid req" by (rule decode_is_valid [OF assms(3)])
  moreover have "encode (mk_message ERROR [''User not logged in'']) = Inr ''ERROR User not logged in\<newline>''" by code_simp
  ultimately show ?thesis
    using assms
    by (simp add: chat_iteration_def try_block_def catch_clauses_def finish_iteration_def
        return_response_to_client_def seq_def cm_base)
qed

lemma login_required_witness:
  "\<exists>c. chat_iteration 11 ''CREATE foo\<newline>'' (ClientConnection \<lparr>rio_fd = 0, rio_cnt = 0, rio_bufptr = 0, rio_buf = []\<rparr> False 4 []) =
     Ret (Inr False, c) \<and> sent c = [''ERROR User not logged in\<newline>'']"
proof -
  let ?c = "ClientConnection \<lparr>rio_fd = 0, rio_cnt = 0, rio_bufptr = 0, rio_buf = []\<rparr> False 4 []"
  have "decode (c_string ''CREATE foo\<newline>'') = Inr (mk_message CREATE [''foo''])" by code_simp
  from login_required [OF _ _ this, of ?c 11] show ?thesis by (simp add: ClientConnection_def)
qed

end
