(* ===== verification/Concurrency.thy ===== *)
theory Concurrency
  imports Connection_Safety
begin

section \<open>The running server\<close>

text \<open>
  The server process: the shared state, one worker thread for each accepted connection and the
  failure that ended the process, if one did. \<open>advance i\<close> is the next step of the thread of
  connection \<open>i\<close> (\<open>Server::client_worker\<close> running \<open>chat_with_client\<close>): reading a line
  starts a round of the loop, a round performs its atomic actions one by one, and at its end the
  thread reads again, ends, or ends the process with the exception that left the loop. \<open>step\<close>
  interleaves the threads in any order, lets new connections arrive at any time (\<open>accept\<close>
  returns a descriptor that is not in use) and clients go away. The bytes
  a client will send are fixed when it connects; when they are read is not.

  The invariant \<open>sys_inv\<close> gives every thread a ghost state under which it is checked, so that the
  locale \<open>thread_logic\<close> of theory \<open>Threads\<close> applies to every step.
\<close>

datatype thread =
    Reading conn
  | Working "(bool result \<times> conn) thread_prog"
  | Closed conn

record system =
  shared :: server
  threads :: "cid \<Rightarrow> thread option"
  crashed :: "failure option"
  cerr :: "string list"
  open_fds :: "int set"

definition boot :: system where
  "boot = \<lparr>shared = new_server, threads = Map.empty, crashed = None, cerr = [], open_fds = {}\<rparr>"

datatype event = Internal | Acted cid action reply

definition log_error :: "string \<Rightarrow> system \<Rightarrow> system" where
  "log_error m s = s\<lparr>cerr := cerr s @ [''Error: '' @ m @ [CHR 10]]\<rparr>"

text \<open>
  One turn of \<open>server_loop\<close>: \<open>client_fd\<close> is what \<open>accept\<close> returned and \<open>create\<close> what
  \<open>pthread_create\<close> returned. \<open>open_fds\<close> are the descriptors of accepted connections that have
  not been closed.
\<close>

definition server_loop_body :: "int \<Rightarrow> int \<Rightarrow> cid \<Rightarrow> (int \<Rightarrow> conn) \<Rightarrow> system \<Rightarrow> system" where
  "server_loop_body client_fd create i client s =
     (if client_fd < 0 then log_error ''Error accepting client connection'' s
      else let s1 = s\<lparr>open_fds := insert client_fd (open_fds s)\<rparr>; c = client client_fd in
        if create \<noteq> 0
        then (let s2 = log_error ''Could not create client thread'' s1
              in s2\<lparr>open_fds := destroy_ClientConnection c (open_fds s2)\<rparr>)
        else s1\<lparr>threads := (threads s1)(i \<mapsto> Reading c)\<rparr>)"

fun work :: "cid \<Rightarrow> (bool result \<times> conn) thread_prog \<Rightarrow> system \<Rightarrow> (event \<times> system) option" where
  "work i (Act a k) s =
     (case exec i a (shared s) of
        Next r sh \<Rightarrow> Some (Acted i a r, s\<lparr>shared := sh, threads := (threads s)(i \<mapsto> Working (k r))\<rparr>)
      | Blocked \<Rightarrow> None
      | Fault \<Rightarrow> Some (Internal, s\<lparr>crashed := Some (Undefined_behaviour ''access through a bad pointer'')\<rparr>))"
| "work i (Ret (r, c)) s =
     (case r of
        Inl e \<Rightarrow> Some (Internal, s\<lparr>crashed := Some e\<rparr>)
      | Inr keep_going \<Rightarrow>
          Some (Internal,
            if keep_going then s\<lparr>threads := (threads s)(i \<mapsto> Reading c)\<rparr>
            else s\<lparr>threads := (threads s)(i \<mapsto> Closed c), open_fds := destroy_ClientConnection c (open_fds s)\<rparr>))"

definition advance :: "cid \<Rightarrow> system \<Rightarrow> (event \<times> system) option" where
  "advance i s =
     (case threads s i of
        None \<Rightarrow> None
      | Some (Closed c) \<Rightarrow> None
      | Some (Reading c) \<Rightarrow>
          (case chat_round c of
             None \<Rightarrow> None
           | Some p \<Rightarrow> Some (Internal, s\<lparr>threads := (threads s)(i \<mapsto> Working p)\<rparr>))
      | Some (Working p) \<Rightarrow> work i p s)"

text \<open>
  The last thing a round does, unless an exception has left it, is to write its response
  (\<open>return_response_to_client\<close>). When the client has closed the connection the signal
  \<open>SIGPIPE\<close>, which the program neither handles nor ignores, ends the process instead.
\<close>

definition broken_pipe :: "cid \<Rightarrow> system \<Rightarrow> system option" where
  "broken_pipe i s =
     (case threads s i of
        Some (Working (Ret (Inr keep_going, c))) \<Rightarrow> Some (s\<lparr>crashed := Some Sigpipe\<rparr>)
      | _ \<Rightarrow> None)"

inductive step :: "system \<Rightarrow> event \<Rightarrow> system \<Rightarrow> bool" where
  accept: "crashed s = None \<Longrightarrow> threads s i = None \<Longrightarrow> client_fd \<notin> open_fds s \<Longrightarrow>
     step s Internal (server_loop_body client_fd create i
       (\<lambda>fd. ClientConnection raw_buf raw_logged_in fd arriving) s)"
| thread: "crashed s = None \<Longrightarrow> advance i s = Some (e, s') \<Longrightarrow> step s e s'"
| hangup: "crashed s = None \<Longrightarrow> broken_pipe i s = Some s' \<Longrightarrow> step s Internal s'"

inductive path :: "system \<Rightarrow> event list \<Rightarrow> system \<Rightarrow> bool" where
  path_refl: "path s [] s"
| path_step: "path s tr s' \<Longrightarrow> step s' e s'' \<Longrightarrow> path s (tr @ [e]) s''"

definition reachable :: "system \<Rightarrow> bool" where
  "reachable s \<longleftrightarrow> (\<exists>tr. path boot tr s)"

inductive_cases stepE: "step s e s'"

subsection \<open>The invariant\<close>

fun thread_inv :: "thread option \<Rightarrow> ghost \<Rightarrow> bool" where
  "thread_inv None h \<longleftrightarrow> h = ({}, {}, {}, {})"
| "thread_inv (Some (Reading c)) h \<longleftrightarrow> conn_inv c h"
| "thread_inv (Some (Working p)) h \<longleftrightarrow> safe p h (\<lambda>(r, c) h'. round_post r c h')"
| "thread_inv (Some (Closed c)) h \<longleftrightarrow> fst h = snd (snd (snd h))"

definition lost_of :: "ghost \<Rightarrow> lock_id set" where
  "lost_of h = snd (snd (snd h))"

definition tracked :: "cid \<Rightarrow> system \<Rightarrow> ghost \<Rightarrow> bool" where
  "tracked i s h \<longleftrightarrow> agrees i (shared s) h \<and> thread_inv (threads s i) h"

definition sys_inv :: "system \<Rightarrow> bool" where
  "sys_inv s \<longleftrightarrow> server_inv (shared s) \<and> (\<forall>i. \<exists>h. tracked i s h) \<and>
     (\<forall>e. crashed s = Some e \<longrightarrow> escapes e \<or> e = Sigpipe)"

lemma conn_inv_new: "conn_inv (ClientConnection raw raw_logged fd arriving) ({}, {}, {}, {})"
  by (simp add: conn_inv_def ClientConnection_def short_stack_def ValueStack_def stack_ok_def)

lemma chat_round_safe:
  assumes "conn_inv c h" and "chat_round c = Some p"
  shows "safe p h (\<lambda>(r, c) h'. round_post r c h')"
proof -
  from assms(2) obtain n buf rp ins where "p = chat_iteration n buf (c\<lparr>m_fdbuf := rp, input := ins\<rparr>)"
    by (auto simp: chat_round_def split: option.splits)
  moreover have "conn_inv (c\<lparr>m_fdbuf := rp, input := ins\<rparr>) h" using assms(1) by simp
  ultimately show ?thesis using chat_iteration_safe unfolding cm_safe_def by blast
qed

lemma round_end:
  assumes "agrees i sh (H, K, D, L)" and "conn_ok c (H, K, D, L)"
  obtains L' where "L \<subseteq> L'" "agrees i sh (H, K, D, L')" "conn_inv c (H, K, D, L')"
proof -
  from assms(2) obtain L' where l: "L \<subseteq> L'" and inv: "conn_inv c (H, K, D, L')" by (rule conn_ok_cases)
  have "L' \<subseteq> H" "Tables_lock \<notin> L'" using inv by (auto simp: conn_inv_def)
  then have "agrees i sh (H, K, D, L')" using assms(1) by (simp add: agrees_def)
  with l inv show thesis by (intro that)
qed

lemma step_cases:
  assumes "step s e s'"
  obtains (accept) j fd create client where "crashed s = None" "threads s j = None" "e = Internal"
      "s' = server_loop_body fd create j client s" "conn_inv (client fd) ({}, {}, {}, {})"
  | (thread) j where "crashed s = None" "advance j s = Some (e, s')"
  | (hangup) "crashed s = None" "e = Internal" "s' = s\<lparr>crashed := Some Sigpipe\<rparr>"
  using assms
proof (rule stepE)
  fix i assume "crashed s = None" "e = Internal" "broken_pipe i s = Some s'"
  then show thesis
    by (intro hangup) (auto simp: broken_pipe_def split: option.splits thread.splits prog.splits prod.splits sum.splits)
next
  fix i client_fd create raw_buf raw_logged_in arriving
  assume "e = Internal" "crashed s = None" "threads s i = None"
    "s' = server_loop_body client_fd create i (\<lambda>fd. ClientConnection raw_buf raw_logged_in fd arriving) s"
  then show thesis using accept conn_inv_new by blast
qed (rule thread)

text \<open>One step of a thread: what becomes of its own ghost state, and of the others'.\<close>

lemma advance_own:
  assumes "server_inv (shared s)" and "tracked i s h" and "advance i s = Some (e, s')"
  shows "server_inv (shared s') \<and> (\<exists>h'. tracked i s' h' \<and> lost_of h \<subseteq> lost_of h') \<and>
    (\<forall>x. crashed s' = Some x \<longrightarrow> crashed s = Some x \<or> escapes x)"
proof -
  obtain H K D L where h: "h = (H, K, D, L)" by (cases h) auto
  from assms(3) consider (read) c p where "threads s i = Some (Reading c)" "chat_round c = Some p"
      "s' = s\<lparr>threads := (threads s)(i \<mapsto> Working p)\<rparr>"
    | (working) p where "threads s i = Some (Working p)" "work i p s = Some (e, s')"
    by (auto simp: advance_def split: option.splits thread.splits)
  then show ?thesis
  proof cases
    case read
    with assms(1,2) chat_round_safe [of c h p] have "tracked i s' h" "server_inv (shared s')"
      by (simp_all add: tracked_def)
    moreover have "crashed s' = crashed s" using read by simp
    ultimately show ?thesis by (metis order_refl)
  next
    case working
    with assms(2) have ag: "agrees i (shared s) h" and sf: "safe p h (\<lambda>(r, c) h'. round_post r c h')"
      by (simp_all add: tracked_def)
    show ?thesis
    proof (cases p)
      case (Act a k)
      note st = db.safe_step [OF sf [unfolded Act] assms(1) ag]
      from working(2) Act st(1) obtain r sh where n: "exec i a (shared s) = Next r sh"
        and s': "s' = s\<lparr>shared := sh, threads := (threads s)(i \<mapsto> Working (k r))\<rparr>"
        by (auto split: outcome.splits)
      have "tracked i s' (after a r h)" "server_inv sh" using st(2) [OF n] s' by (simp_all add: tracked_def)
      moreover have "lost_of (after a r h) = lost_of h"
        unfolding h by (cases a) (simp_all add: lost_of_def)
      moreover have "crashed s' = crashed s" "shared s' = sh" using s' by simp_all
      ultimately show ?thesis by (metis order_refl)
    next
      case (Ret x)
      obtain r c where x: "x = (r, c)" by (cases x) auto
      with sf Ret have post: "round_post r c h" by simp
      show ?thesis
      proof (cases r)
        case (Inl f)
        with working(2) Ret x have "s' = s\<lparr>crashed := Some f\<rparr>" by auto
        with assms(1,2) post Inl have "tracked i s' h" "server_inv (shared s')" "crashed s' = Some f" "escapes f"
          by (simp_all add: tracked_def round_post_def)
        then show ?thesis by (metis order_refl option.inject)
      next
        case (Inr b)
        with working(2) Ret x have s': "threads s' = (threads s)(i \<mapsto> if b then Reading c else Closed c)"
          "shared s' = shared s" "crashed s' = crashed s"
          by auto
        from post Inr h have ok: "conn_ok c (H, K, D, L)" by (simp add: round_post_def)
        obtain L' where "L \<subseteq> L'" "agrees i (shared s) (H, K, D, L')" "conn_inv c (H, K, D, L')"
          by (rule round_end [OF ag [unfolded h] ok])
        then have "tracked i s' (H, K, D, if b then L' else H) \<and>
            lost_of h \<subseteq> lost_of (H, K, D, if b then L' else H)"
          using s' h by (auto simp: tracked_def lost_of_def agrees_def conn_inv_def)
        then have "\<exists>h'. tracked i s' h' \<and> lost_of h \<subseteq> lost_of h'" by (rule exI)
        with s'(2,3) show ?thesis using assms(1) by (simp del: split_paired_Ex)
      qed
    qed
  qed
qed

lemma advance_other:
  assumes "server_inv (shared s)" and "tracked i s h" and "advance i s = Some (e, s')"
    and "j \<noteq> i" and "tracked j s h'"
  shows "tracked j s' h'"
proof -
  have th: "threads s' j = threads s j"
    using assms(3,4)
    by (auto simp: advance_def split: option.splits thread.splits outcome.splits sum.splits elim!: work.elims)
  show ?thesis
  proof (cases "shared s' = shared s")
    case True
    with th assms(5) show ?thesis by (simp add: tracked_def)
  next
    case False
    then obtain a k where p: "threads s i = Some (Working (Act a k))" and w: "work i (Act a k) s = Some (e, s')"
      using assms(3)
      by (auto simp: advance_def split: option.splits thread.splits sum.splits elim!: work.elims)
    from assms(2) p have ag: "agrees i (shared s) h" and sf: "safe (Act a k) h (\<lambda>(r, c) h'. round_post r c h')"
      by (simp_all add: tracked_def)
    note st = db.safe_step [OF sf assms(1) ag]
    from w st(1) obtain r where "exec i a (shared s) = Next r (shared s')"
      by (auto split: outcome.splits)
    from st(3) [OF this assms(4)] assms(5) th show ?thesis by (simp add: tracked_def)
  qed
qed

lemma agrees_nothing: "agrees i sh ({}, {}, {}, {}) \<longleftrightarrow> holds i sh = {} \<and> changed i sh = {}"
  by (auto simp: agrees_def)

lemma step_tracked:
  assumes "server_inv (shared s)" and "\<And>j. \<exists>h. tracked j s h" and "step s e s'" and "tracked i s h"
  shows "\<exists>h'. tracked i s' h' \<and> lost_of h \<subseteq> lost_of h'"
  using assms(3)
proof (cases rule: step_cases)
  case (accept j fd create client)
  show ?thesis
  proof (cases "j = i \<and> \<not> fd < 0 \<and> create = 0")
    case True
    with accept assms(4) have h: "h = ({}, {}, {}, {})" "agrees i (shared s) h" by (auto simp: tracked_def)
    from h(2) [unfolded h(1)] h(1) have "tracked i s' h" using accept True by (simp add: tracked_def server_loop_body_def Let_def)
    then show ?thesis by blast
  next
    case False
    then have "tracked i s' h" using accept assms(4)
      by (auto simp: tracked_def server_loop_body_def log_error_def Let_def)
    then show ?thesis by blast
  qed
next
  case (thread j)
  obtain hj where hj: "tracked j s hj" using assms(2) by blast
  show ?thesis
  proof (cases "j = i")
    case True
    with advance_own [OF assms(1,4)] thread show ?thesis by auto
  next
    case False
    with advance_other [OF assms(1) hj thread(2) _ assms(4)] show ?thesis by blast
  qed
next
  case hangup
  with assms(4) have "tracked i s' h" by (simp add: tracked_def)
  then show ?thesis by blast
qed

lemma sys_inv_step: "sys_inv s \<Longrightarrow> step s e s' \<Longrightarrow> sys_inv s'"
proof -
  assume inv: "sys_inv s" and st: "step s e s'"
  from inv have si: "server_inv (shared s)" and tr: "\<And>i. \<exists>h. tracked i s h" by (auto simp: sys_inv_def)
  have "\<exists>h. tracked i s' h" for i using step_tracked [OF si tr st] tr [of i] by blast
  moreover have "server_inv (shared s') \<and> (\<forall>x. crashed s' = Some x \<longrightarrow> escapes x \<or> x = Sigpipe)"
    using st
  proof (cases rule: step_cases)
    case (accept j fd create client)
    with accept si show ?thesis by (auto simp: server_loop_body_def log_error_def Let_def)
  next
    case (thread i)
    then show ?thesis using tr [of i] advance_own [OF si _ thread(2)] by fastforce
  next
    case hangup
    with si show ?thesis by simp
  qed
  ultimately show ?thesis by (simp add: sys_inv_def)
qed

lemma sys_inv_path: "path s tr s' \<Longrightarrow> sys_inv s \<Longrightarrow> sys_inv s'"
  by (induction rule: path.induct) (auto intro: sys_inv_step)

lemma sys_inv_boot: "sys_inv boot"
proof -
  have "tracked i boot ({}, {}, {}, {})" for i
    by (simp add: tracked_def boot_def agrees_nothing changed_def new_server_def holds_new [unfolded new_server_def])
  moreover have "server_inv (shared boot)" "crashed boot = None" by (simp_all add: boot_def)
  ultimately show ?thesis unfolding sys_inv_def by (metis option.distinct(1))
qed

lemma reachable_inv: "reachable s \<Longrightarrow> sys_inv s"
  using sys_inv_boot sys_inv_path unfolding reachable_def by blast

lemma path_tracked:
  assumes "path s tr s'" and "sys_inv s" and "tracked i s h"
  shows "\<exists>h'. tracked i s' h' \<and> lost_of h \<subseteq> lost_of h'"
  using assms
proof (induction rule: path.induct)
  case (path_refl s)
  then show ?case by blast
next
  case (path_step s tr s' e s'')
  then obtain h' where h': "tracked i s' h'" "lost_of h \<subseteq> lost_of h'" by blast
  have "sys_inv s'" using sys_inv_path path_step by blast
  then have "\<exists>h''. tracked i s'' h'' \<and> lost_of h' \<subseteq> lost_of h''"
    using step_tracked [OF _ _ path_step.hyps(2) h'(1)] by (auto simp: sys_inv_def)
  with h'(2) show ?case by blast
qed

lemma path_trans: "path s' tr' s'' \<Longrightarrow> path s tr s' \<Longrightarrow> path s (tr @ tr') s''"
proof (induction rule: path.induct)
  case (path_step s1 tr1 s2 e s3)
  then have "path s ((tr @ tr1) @ [e]) s3" by (blast intro: path.path_step)
  then show ?case by simp
qed simp

lemma sys_inv_ghost:
  assumes "sys_inv s"
  obtains H K D L where "tracked i s (H, K, D, L)"
  using assms unfolding sys_inv_def by (metis prod_cases4)

subsection \<open>What a thread does next\<close>

definition next_action :: "system \<Rightarrow> cid \<Rightarrow> action option" where
  "next_action s i = (case threads s i of Some (Working (Act a k)) \<Rightarrow> Some a | _ \<Rightarrow> None)"

lemma next_action_allowed:
  assumes "sys_inv s" and "next_action s i = Some a" and "tracked i s h"
  shows "allowed a h" and "agrees i (shared s) h"
  using assms by (auto simp: next_action_def tracked_def split: option.splits thread.splits prog.splits)

lemma advance_event:
  assumes "advance i s = Some (e, s')"
  shows "shared s' = shared s \<and> e = Internal \<or>
    (\<exists>a r. e = Acted i a r \<and> next_action s i = Some a \<and> exec i a (shared s) = Next r (shared s'))"
proof -
  from assms consider (read) "shared s' = shared s \<and> e = Internal"
    | (working) p where "threads s i = Some (Working p)" "work i p s = Some (e, s')"
    by (auto simp: advance_def split: option.splits thread.splits)
  then show ?thesis
  proof cases
    case working
    then show ?thesis
      by (cases p) (auto simp: next_action_def split: outcome.splits sum.splits prod.splits)
  qed blast
qed

text \<open>The places two threads can meet at, and the mutex that protects each.\<close>

datatype location = Map_of_tables | Contents tid

fun protects :: "location \<Rightarrow> lock_id" where
  "protects Map_of_tables = Tables_lock"
| "protects (Contents t) = Table_lock t"

fun touches :: "action \<Rightarrow> location option" where
  "touches (Find_name n) = Some Map_of_tables"
| "touches (New_table n) = Some Map_of_tables"
| "touches (Get t k) = Some (Contents t)"
| "touches (Put t k v) = Some (Contents t)"
| "touches (Commit t) = Some (Contents t)"
| "touches (Rollback t) = Some (Contents t)"
| "touches _ = None"

lemma touches_held:
  "allowed a (H, K, D, L) \<Longrightarrow> touches a = Some l \<Longrightarrow> protects l \<in> H"
  by (cases a) auto

lemma access_by_owner:
  assumes "sys_inv s" and "next_action s i = Some a" and "touches a = Some l"
  shows "owner (protects l) (shared s) = Some i"
proof -
  obtain H K D L where h: "tracked i s (H, K, D, L)" by (rule sys_inv_ghost [OF assms(1)])
  with next_action_allowed [OF assms(1,2) h] touches_held [OF _ assms(3)] show ?thesis
    by (auto simp: agrees_def holds_def)
qed

subsection \<open>Waiting\<close>

fun wanted :: "action \<Rightarrow> lock_id option" where
  "wanted Lock_tables = Some Tables_lock"
| "wanted (Lock_table t) = Some (Table_lock t)"
| "wanted _ = None"

definition waits :: "system \<Rightarrow> cid \<Rightarrow> lock_id \<Rightarrow> bool" where
  "waits s i l \<longleftrightarrow> Option.bind (next_action s i) wanted = Some l \<and> owner l (shared s) \<noteq> None"

definition waits_on :: "system \<Rightarrow> cid \<Rightarrow> cid \<Rightarrow> bool" where
  "waits_on s i j \<longleftrightarrow> (\<exists>l. waits s i l \<and> owner l (shared s) = Some j)"

text \<open>A lock that a thread holds and will hold whatever happens.\<close>

definition lost :: "system \<Rightarrow> cid \<Rightarrow> lock_id \<Rightarrow> bool" where
  "lost s i l \<longleftrightarrow> (\<forall>tr s'. path s tr s' \<longrightarrow> owner l (shared s') = Some i)"

lemma waits_action: "waits s i l \<Longrightarrow> \<exists>a. next_action s i = Some a \<and> wanted a = Some l"
  by (auto simp: waits_def bind_eq_Some_conv)

lemma ghost_lost:
  assumes "sys_inv s" and "tracked i s (H, K, D, L)" and "l \<in> L"
  shows "lost s i l"
  unfolding lost_def
proof (intro allI impI)
  fix tr s' assume "path s tr s'"
  from path_tracked [OF this assms(1,2)] obtain h' where h': "tracked i s' h'" "L \<subseteq> lost_of h'"
    by (auto simp: lost_of_def simp del: split_paired_Ex)
  obtain H' K' D' L' where "h' = (H', K', D', L')" by (cases h') auto
  with h' assms(3) show "owner l (shared s') = Some i"
    by (auto simp: lost_of_def tracked_def agrees_def holds_def)
qed

lemma tables_owner_never_waits:
  assumes "sys_inv s" and "owner Tables_lock (shared s) = Some i"
  shows "\<not> waits s i l"
proof
  assume "waits s i l"
  then obtain a where a: "next_action s i = Some a" "wanted a = Some l" using waits_action by blast
  obtain H K D L where h: "tracked i s (H, K, D, L)" by (rule sys_inv_ghost [OF assms(1)])
  note al = next_action_allowed [OF assms(1) a(1) h]
  from al assms(2) have "Tables_lock \<in> H" "Tables_lock \<notin> L" by (auto simp: agrees_def holds_def)
  with al(1) a(2) show False by (cases a) auto
qed

lemma exec_Blocked: "exec i a sh = Blocked \<Longrightarrow> \<exists>l. wanted a = Some l \<and> owner l sh \<noteq> None"
  by (cases a) (auto simp: exec_defs split: option.splits)

lemma tables_owner_advances:
  assumes "sys_inv s" and "owner Tables_lock (shared s) = Some i"
  shows "\<exists>e s'. advance i s = Some (e, s')"
proof -
  obtain H K D L where h: "tracked i s (H, K, D, L)" by (rule sys_inv_ghost [OF assms(1)])
  then have H: "Tables_lock \<in> H" "Tables_lock \<notin> L" and ti: "thread_inv (threads s i) (H, K, D, L)"
    using assms(2) by (auto simp: tracked_def agrees_def holds_def)
  then obtain p where p: "threads s i = Some (Working p)"
    by (cases rule: thread_inv.elims(2) [OF ti]) (auto simp: conn_inv_def)
  show ?thesis
  proof (cases p)
    case (Ret x)
    with p show ?thesis by (cases x) (auto simp: advance_def split: sum.splits)
  next
    case (Act a k)
    with p have "next_action s i = Some a" by (simp add: next_action_def)
    with tables_owner_never_waits [OF assms] have "exec i a (shared s) \<noteq> Blocked"
      using exec_Blocked by (fastforce simp: waits_def)
    with p Act show ?thesis by (cases "exec i a (shared s)") (auto simp: advance_def)
  qed
qed

lemma waiter_for_table_lost:
  assumes "sys_inv s" and "waits s i (Table_lock t)" and "owner l (shared s) = Some i"
  shows "lost s i l"
proof -
  from assms(2) obtain a where a: "next_action s i = Some a" "wanted a = Some (Table_lock t)"
    using waits_action by blast
  then have "a = Lock_table t" by (cases a) auto
  obtain H K D L where h: "tracked i s (H, K, D, L)" by (rule sys_inv_ghost [OF assms(1)])
  from next_action_allowed [OF assms(1) a(1) h] \<open>a = Lock_table t\<close> have "H \<subseteq> L" "holds i (shared s) = H"
    by (auto simp: agrees_def)
  with assms(3) have "l \<in> L" by (auto simp: holds_def)
  with ghost_lost [OF assms(1) h] show ?thesis .
qed

lemma idle_lost:
  assumes "sys_inv s" and "owner l (shared s) = Some i"
    and "threads s i = Some (Closed c) \<or>
      threads s i = Some (Reading c) \<and> l \<notin> Table_lock ` set (locked_tables c)"
  shows "lost s i l"
proof -
  obtain H K D L where h: "tracked i s (H, K, D, L)" by (rule sys_inv_ghost [OF assms(1)])
  have "l \<in> H" using h assms(2) by (auto simp: tracked_def agrees_def holds_def)
  with h assms(3) have "l \<in> L" by (auto simp: tracked_def conn_inv_def)
  with ghost_lost [OF assms(1) h] show ?thesis .
qed

lemma wait_chain:
  assumes "sys_inv s" and "waits s i l" and "owner l (shared s) = Some j" and "waits_on s j k" and "waits_on s k m"
  shows "lost s j l"
proof -
  from assms(4) obtain l' where l': "waits s j l'" "owner l' (shared s) = Some k" by (auto simp: waits_on_def)
  from assms(5) obtain l'' where "waits s k l''" by (auto simp: waits_on_def)
  with l'(2) tables_owner_never_waits [OF assms(1)] have "l' \<noteq> Tables_lock" by blast
  then obtain t where "l' = Table_lock t" by (cases l') auto
  with waiter_for_table_lost [OF assms(1)] l'(1) assms(3) show ?thesis by blast
qed

subsection \<open>Isolation\<close>

fun releases :: "cid \<Rightarrow> tid \<Rightarrow> event \<Rightarrow> bool" where
  "releases i t (Acted j a r) \<longleftrightarrow> j = i \<and> (a = Unlock_table t \<or> a = Commit t \<or> a = Rollback t)"
| "releases i t Internal \<longleftrightarrow> False"

fun own_op :: "cid \<Rightarrow> tid \<Rightarrow> event \<Rightarrow> (string, string) store_op list" where
  "own_op i t (Acted j (Get t' k) r) = (if j = i \<and> t' = t then [Read k] else [])"
| "own_op i t (Acted j (Put t' k v) r) = (if j = i \<and> t' = t then [Write k v] else [])"
| "own_op i t _ = []"

definition own_ops :: "cid \<Rightarrow> tid \<Rightarrow> event list \<Rightarrow> (string, string) store_op list" where
  "own_ops i t tr = concat (map (own_op i t) tr)"

text \<open>While thread \<open>i\<close> holds table \<open>t\<close>, only its own reads and writes act on the table.\<close>

lemma exec_held_table:
  assumes "agrees j sh h" and "allowed a h" and "exec j a sh = Next r sh'" and "server_inv sh"
    and "heap sh t = Some tb" and "m_mutex tb = Some i" and "\<not> releases i t (Acted j a r)"
  shows "heap sh' t = Some (fold table_op (own_op i t (Acted j a r)) tb)"
    and "m_mutex (fold table_op (own_op i t (Acted j a r)) tb) = Some i"
proof -
  obtain H K D L where h: "h = (H, K, D, L)" by (cases h) auto
  have own: "j = i" if "Table_lock t \<in> H"
    using that assms(1,5,6) h by (auto simp: agrees_def holds_def)
  have fresh: "heap sh (next_addr sh) = None" using assms(4) by (simp add: server_inv_def)
  have "heap sh' t = Some (fold table_op (own_op i t (Acted j a r)) tb) \<and>
      m_mutex (fold table_op (own_op i t (Acted j a r)) tb) = Some i"
  proof (cases a)
    case (Get t' k)
    with assms(3) obtain tb' where "heap sh t' = Some tb'" "sh' = sh\<lparr>heap := (heap sh)(t' \<mapsto> snd (table_get k tb'))\<rparr>"
      by (auto simp: exec_Get simp del: exec.simps)
    with Get assms own h show ?thesis by auto
  qed (use assms own h fresh in \<open>auto simp: exec_defs on_table_Next split: option.splits if_splits\<close>)
  then show "heap sh' t = Some (fold table_op (own_op i t (Acted j a r)) tb)"
    "m_mutex (fold table_op (own_op i t (Acted j a r)) tb) = Some i" by auto
qed

lemma step_held_table:
  assumes "sys_inv s" and "step s e s'" and "heap (shared s) t = Some tb" and "m_mutex tb = Some i"
    and "\<not> releases i t e"
  shows "heap (shared s') t = Some (fold table_op (own_op i t e) tb) \<and>
    m_mutex (fold table_op (own_op i t e) tb) = Some i"
  using assms(2)
proof (cases rule: step_cases)
  case (accept j fd create client)
  with assms(3,4) show ?thesis by (auto simp: server_loop_body_def log_error_def Let_def)
next
  case (thread j)
  from advance_event [OF thread(2)] show ?thesis
  proof (elim disjE exE conjE)
    assume "shared s' = shared s" "e = Internal"
    with assms(3,4) show ?thesis by simp
  next
    fix a r assume e: "e = Acted j a r" and n: "next_action s j = Some a" and
      ex: "exec j a (shared s) = Next r (shared s')"
    obtain H K D L where h: "tracked j s (H, K, D, L)" by (rule sys_inv_ghost [OF assms(1)])
    have "server_inv (shared s)" using assms(1) by (simp add: sys_inv_def)
    from exec_held_table [OF next_action_allowed(2,1) [OF assms(1) n h] ex this assms(3,4)] assms(5) e
    show ?thesis by simp
  qed
next
  case hangup
  with assms(3,4) show ?thesis by simp
qed

lemma path_held_table:
  assumes "path s tr s'" and "sys_inv s" and "heap (shared s) t = Some tb" and "m_mutex tb = Some i"
    and "\<forall>e\<in>set tr. \<not> releases i t e"
  shows "heap (shared s') t = Some (fold table_op (own_ops i t tr) tb) \<and>
    m_mutex (fold table_op (own_ops i t tr) tb) = Some i"
  using assms
proof (induction rule: path.induct)
  case (path_refl s)
  then show ?case by (simp add: own_ops_def)
next
  case (path_step s tr s' e s'')
  from path_step have "heap (shared s') t = Some (fold table_op (own_ops i t tr) tb)"
    "m_mutex (fold table_op (own_ops i t tr) tb) = Some i" by auto
  with step_held_table [OF sys_inv_path [OF path_step.hyps(1)] path_step.hyps(2)] path_step.prems
  show ?case by (simp add: own_ops_def)
qed

end
