(* ===== verification/Scenarios.thy ===== *)
theory Scenarios
  imports Concurrency
begin

section \<open>Concrete runs\<close>

text \<open>
  Executable runs of the system under a given schedule, for the examples that accompany the
  properties: \<open>connect i bytes\<close> accepts a connection whose client will send these bytes, and
  \<open>drive is\<close> lets the threads named in \<open>is\<close> advance in this order.
\<close>

definition connect :: "cid \<Rightarrow> string \<Rightarrow> system \<Rightarrow> system" where
  "connect i bytes s =
     server_loop_body (4 + int i) 0 i
       (\<lambda>fd. ClientConnection \<lparr>rio_fd = 0, rio_cnt = 0, rio_bufptr = 0, rio_buf = []\<rparr> True fd [Chunk bytes]) s"

fun drive :: "cid list \<Rightarrow> system \<Rightarrow> (event list \<times> system) option" where
  "drive [] s = Some ([], s)"
| "drive (i # is) s =
     (if crashed s \<noteq> None then None
      else case advance i s of
          None \<Rightarrow> None
        | Some (e, s') \<Rightarrow> (case drive is s' of None \<Rightarrow> None | Some (tr, t) \<Rightarrow> Some (e # tr, t)))"

lemma path_Cons: "step s e s' \<Longrightarrow> path s' tr s'' \<Longrightarrow> path s (e # tr) s''"
  using path_trans [of s' tr s'' s "[e]"] path_step [OF path_refl] by simp

lemma drive_path: "drive is s = Some (tr, t) \<Longrightarrow> path s tr t"
proof (induction "is" arbitrary: s tr)
  case Nil
  then show ?case by (auto intro: path_refl)
next
  case (Cons i "is")
  then obtain e s' tr' where "crashed s = None" "advance i s = Some (e, s')" "drive is s' = Some (tr', t)"
    and tr: "tr = e # tr'"
    by (auto split: if_splits option.splits)
  then have "step s e s'" "path s' tr' t" using Cons.IH step.thread by blast+
  then show ?case unfolding tr by (rule path_Cons)
qed

lemma drive_no_thread: "drive is s = Some (tr, t) \<Longrightarrow> threads s j = None \<Longrightarrow> threads t j = None"
proof (induction "is" arbitrary: s tr)
  case (Cons i "is")
  then obtain e s' tr' where ad: "advance i s = Some (e, s')" and d: "drive is s' = Some (tr', t)"
    by (auto split: if_splits option.splits)
  from ad Cons.prems(2) have "threads s' j = None"
    by (auto simp: advance_def split: option.splits thread.splits outcome.splits sum.splits if_splits elim!: work.elims)
  with Cons.IH [OF d] show ?case .
qed simp

lemma reachable_drive: "reachable s \<Longrightarrow> drive is s = Some (tr, t) \<Longrightarrow> reachable t"
  unfolding reachable_def using drive_path path_trans by blast

lemma reachable_connect:
  "reachable s \<Longrightarrow> crashed s = None \<Longrightarrow> threads s i = None \<Longrightarrow> 4 + int i \<notin> open_fds s \<Longrightarrow>
   reachable (connect i bytes s)"
  unfolding reachable_def connect_def by (blast intro: path_step step.accept)

lemma reachable_boot: "reachable boot"
  unfolding reachable_def using path_refl by blast


text \<open>From the evaluation of a run to a reachable state with a property.\<close>

lemma run_obtains:
  assumes "reachable s" and "case drive is s of None \<Rightarrow> False | Some (tr, t) \<Rightarrow> P t"
  obtains tr t where "reachable t" and "path s tr t" and "P t"
proof -
  obtain tr t where d: "drive is s = Some (tr, t)" and "P t"
    using assms(2) by (auto split: option.splits)
  with reachable_drive [OF assms(1) d] drive_path [OF d] show thesis by (intro that)
qed

lemma reachable_one: "reachable (connect i bytes boot)"
  by (rule reachable_connect [OF reachable_boot]) (simp_all add: boot_def)

lemma reachable_two: "i \<noteq> j \<Longrightarrow> reachable (connect j bytes' (connect i bytes boot))"
  by (rule reachable_connect [OF reachable_one]) (simp_all add: connect_def boot_def server_loop_body_def Let_def)

end
