(* ===== verification/Clients.thy ===== *)
theory Clients
  imports Threads Serialization
begin

section \<open>The command line clients\<close>

text \<open>
  \<open>get_value.cpp\<close>, \<open>set_value.cpp\<close> and \<open>incr_value.cpp\<close>. A client is a program of calls
  on its socket (theory \<open>Threads\<close>): \<open>open_clientfd\<close>, \<open>rio_writen\<close>, \<open>rio_readlineb\<close>
  and \<open>close\<close>. What they return comes from the other side; theory \<open>Network\<close> puts the server there.
  The result is the status with which the process ends, or the failure that ends it, and what it
  printed on its two output streams.

  The functions are in continuation passing style, the last argument being the rest of
  \<open>main\<close>. The whole conversation is inside one \<open>try\<close> block whose handler for
  \<open>std::exception\<close> prints the text of the exception and returns 1: \<open>caught\<close> is used at every
  place that can throw. After \<open>buf[n] = 0\<close> only the bytes of the line matter, up to the first
  zero; the write itself is undefined behaviour when \<open>n\<close> is negative.
\<close>

datatype io =
    Open_fd string string
  | Write_fd int string
  | Readline_fd int nat
  | Close_fd int

datatype io_reply =
    Opened int string
  | Count int
  | Line int string

record console =
  c_out :: string
  c_err :: string

datatype exit_status = Exit int | Stopped failure

type_synonym client = "console \<Rightarrow> (io, io_reply, exit_status \<times> console) prog"

subsection \<open>The pieces of a conversation\<close>

definition return_with :: "int \<Rightarrow> client" where
  "return_with n con = Ret (Exit n, con)"

definition caught :: "failure \<Rightarrow> client" where
  "caught e con =
     (case e of
        Raise x \<Rightarrow> Ret (Exit 1, con\<lparr>c_err := c_err con @ ''Error: '' @ what x @ ''\<newline>''\<rparr>)
      | _ \<Rightarrow> Ret (Stopped e, con))"

text \<open>Printing on \<open>std::cerr\<close> and \<open>std::cout\<close> a text whose evaluation may throw.\<close>

definition complain :: "string result \<Rightarrow> client \<Rightarrow> client" where
  "complain text k con =
     (case text of Inl e \<Rightarrow> caught e con | Inr s \<Rightarrow> k (con\<lparr>c_err := c_err con @ s\<rparr>))"

definition print_line :: "string result \<Rightarrow> client \<Rightarrow> client" where
  "print_line text k con =
     (case text of Inl e \<Rightarrow> caught e con | Inr s \<Rightarrow> k (con\<lparr>c_out := c_out con @ s @ ''\<newline>''\<rparr>))"

definition error_text :: "Message \<Rightarrow> string result" where
  "error_text resp = (case get_quoted_text resp of Inl e \<Rightarrow> Inl e | Inr s \<Rightarrow> Inr (''Error: '' @ s))"

text \<open>Send a request and read a line into the buffer of \<open>MAX_ENCODED_LEN + 1\<close> bytes.\<close>

definition send_receive :: "int \<Rightarrow> Message \<Rightarrow> (int \<Rightarrow> string \<Rightarrow> client) \<Rightarrow> client" where
  "send_receive fd req k con =
     (case encode req of
        Inl e \<Rightarrow> caught e con
      | Inr msg \<Rightarrow> Act (Write_fd fd msg) (\<lambda>_. Act (Readline_fd fd (MAX_ENCODED_LEN + 1)) (\<lambda>r.
          case r of Line n buf \<Rightarrow> k n buf con | _ \<Rightarrow> k (-1) [] con)))"

definition decode_response :: "string \<Rightarrow> (Message \<Rightarrow> client) \<Rightarrow> client" where
  "decode_response buf k con =
     (case decode (takeWhile (\<lambda>ch. ch \<noteq> CHR 0x00) buf) of Inl e \<Rightarrow> caught e con | Inr resp \<Rightarrow> k resp con)"

text \<open>
  The step that most of the conversations consist of: \<open>no_response\<close> is printed when the read
  fails, the text of the response when it is not of the type that was expected; both return 1.
\<close>

definition ask :: "int \<Rightarrow> Message \<Rightarrow> string result \<Rightarrow> MessageType \<Rightarrow> (Message \<Rightarrow> client) \<Rightarrow> client" where
  "ask fd req no_response expected k =
     send_receive fd req (\<lambda>n buf.
       if n < 0 then complain no_response (return_with 1)
       else decode_response buf (\<lambda>resp.
         if get_message_type resp \<noteq> expected then complain (error_text resp) (return_with 1)
         else k resp))"

definition open_client :: "string \<Rightarrow> string \<Rightarrow> (int \<Rightarrow> client) \<Rightarrow> client" where
  "open_client hostname port k con =
     Act (Open_fd hostname port) (\<lambda>r.
       case r of Opened fd printed \<Rightarrow> k fd (con\<lparr>c_err := c_err con @ printed\<rparr>) | _ \<Rightarrow> k (-1) con)"

definition close_client :: "int \<Rightarrow> client" where
  "close_client fd con = Act (Close_fd fd) (\<lambda>_. Ret (Exit 0, con))"

definition bye_step :: "int \<Rightarrow> client" where
  "bye_step fd = ask fd (mk_message BYE []) (Inr ''Error: Failed to read response'') OK (\<lambda>_. close_client fd)"

subsection \<open>\<open>set_value\<close>\<close>

definition set_login :: "int \<Rightarrow> string \<Rightarrow> (Message \<Rightarrow> client) \<Rightarrow> client" where
  "set_login fd username = ask fd (mk_message LOGIN [username]) (Inr ''Error: Failed to read response'') OK"

text \<open>When this read fails, the program prints the text of the response to \<open>LOGIN\<close>.\<close>

definition set_push :: "int \<Rightarrow> Message \<Rightarrow> string \<Rightarrow> client \<Rightarrow> client" where
  "set_push fd loginResp val k = ask fd (mk_message PUSH [val]) (error_text loginResp) OK (\<lambda>_. k)"

definition set_set :: "int \<Rightarrow> string \<Rightarrow> string \<Rightarrow> client \<Rightarrow> client" where
  "set_set fd tab key k =
     ask fd (mk_message SET [tab, key]) (Inr ''Error: Failed to read response'') OK (\<lambda>_. k)"

definition set_value_main :: "string list \<Rightarrow> client" where
  "set_value_main argv =
     (if length argv \<noteq> 7
      then complain (Inr ''Requored format: ./set_value <hostname> <port> <username> <table> <key> <value>\<newline>'')
        (return_with 1)
      else open_client (argv ! 1) (argv ! 2) (\<lambda>fd.
        set_login fd (argv ! 3) (\<lambda>loginResp.
        set_push fd loginResp (argv ! 6) (
        set_set fd (argv ! 4) (argv ! 5) (
        bye_step fd)))))"

subsection \<open>\<open>get_value\<close>\<close>

definition buf_underflow :: failure where
  "buf_underflow = Undefined_behaviour ''write to buf[-1]''"

text \<open>Here the program prints a message and goes on.\<close>

definition get_login :: "int \<Rightarrow> string \<Rightarrow> client \<Rightarrow> client" where
  "get_login fd username k =
     send_receive fd (mk_message LOGIN [username]) (\<lambda>n buf.
       if n < 0 then complain (Inr ''Failed to read response'') (caught buf_underflow)
       else decode_response buf (\<lambda>loginResp.
         if get_message_type loginResp \<noteq> OK then complain (error_text loginResp) k else k))"

definition get_get :: "int \<Rightarrow> string \<Rightarrow> string \<Rightarrow> client \<Rightarrow> client" where
  "get_get fd tab key k =
     send_receive fd (mk_message GET [tab, key]) (\<lambda>n buf.
       if n < 0 then complain (Inr ''Failed to read response'') (caught buf_underflow)
       else decode_response buf (\<lambda>getResp.
         if get_message_type getResp \<noteq> OK then complain (error_text getResp) (return_with 1) else k))"

definition get_top_step :: "int \<Rightarrow> client \<Rightarrow> client" where
  "get_top_step fd k =
     ask fd (mk_message TOP []) (Inr ''Failed to read response'') DATA (\<lambda>topResp.
       print_line (get_value topResp) k)"

definition get_value_main :: "string list \<Rightarrow> client" where
  "get_value_main argv =
     (if length argv \<noteq> 6
      then complain (Inr ''Requires this format: ./get_value <hostname> <port> <username> <table> <key>\<newline>'')
        (return_with 1)
      else open_client (argv ! 1) (argv ! 2) (\<lambda>fd.
        get_login fd (argv ! 3) (
        get_get fd (argv ! 4) (argv ! 5) (
        get_top_step fd (
        bye_step fd)))))"

subsection \<open>\<open>incr_value\<close>\<close>

definition incr_ask :: "int \<Rightarrow> Message \<Rightarrow> client \<Rightarrow> client" where
  "incr_ask fd req k = ask fd req (Inr ''Error: Failed to read response'') OK (\<lambda>_. k)"

definition incr_begin :: "bool \<Rightarrow> int \<Rightarrow> client \<Rightarrow> client" where
  "incr_begin useTransaction fd k = (if useTransaction then incr_ask fd (mk_message BEGIN []) k else k)"

definition incr_get :: "int \<Rightarrow> string \<Rightarrow> string \<Rightarrow> client \<Rightarrow> client" where
  "incr_get fd tab key = incr_ask fd (mk_message GET [tab, key])"

definition incr_push :: "int \<Rightarrow> client \<Rightarrow> client" where
  "incr_push fd = incr_ask fd (mk_message PUSH [''1''])"

definition incr_add :: "int \<Rightarrow> client \<Rightarrow> client" where
  "incr_add fd = incr_ask fd (mk_message ADD [])"

definition incr_set :: "int \<Rightarrow> string \<Rightarrow> string \<Rightarrow> client \<Rightarrow> client" where
  "incr_set fd tab key = incr_ask fd (mk_message SET [tab, key])"

definition incr_commit :: "bool \<Rightarrow> int \<Rightarrow> client \<Rightarrow> client" where
  "incr_commit useTransaction fd k = (if useTransaction then incr_ask fd (mk_message COMMIT []) k else k)"

text \<open>The arguments, from position \<open>argIndex\<close>.\<close>

definition incr_run :: "bool \<Rightarrow> nat \<Rightarrow> string list \<Rightarrow> client" where
  "incr_run useTransaction argIndex argv =
     open_client (argv ! argIndex) (argv ! (argIndex + 1)) (\<lambda>fd.
       incr_ask fd (mk_message LOGIN [argv ! (argIndex + 2)]) (
       incr_begin useTransaction fd (
       incr_get fd (argv ! (argIndex + 3)) (argv ! (argIndex + 4)) (
       incr_push fd (
       incr_add fd (
       incr_set fd (argv ! (argIndex + 3)) (argv ! (argIndex + 4)) (
       incr_commit useTransaction fd (
       bye_step fd))))))))"

definition incr_value_main :: "string list \<Rightarrow> client" where
  "incr_value_main argv =
     (if length argv = 7 \<and> argv ! 1 = ''-t'' then incr_run True 2 argv
      else if length argv \<noteq> 6
      then complain (Inr ''Requires format: ./incr_value [-t] hostname port username table key\<newline>'') (return_with 1)
      else incr_run False 1 argv)"

subsection \<open>Conversations with anybody\<close>

text \<open>
  \<open>replay p rs\<close>: the calls that \<open>p\<close> makes and its result when the calls return \<open>rs\<close>, one by
  one, and nothing is left over. No assumption is made on the replies.
\<close>

primrec replay :: "('act, 'rep, 'a) prog \<Rightarrow> 'rep list \<Rightarrow> ('act list \<times> 'a) option" where
  "replay (Ret x) = (\<lambda>rs. if rs = [] then Some ([], x) else None)"
| "replay (Act a k) = (\<lambda>rs. case rs of
       [] \<Rightarrow> None
     | r # rs' \<Rightarrow> (case replay (k r) rs' of None \<Rightarrow> None | Some (as, x) \<Rightarrow> Some (a # as, x)))"

definition acknowledged :: "io_reply \<Rightarrow> bool" where
  "acknowledged r \<longleftrightarrow>
     (case r of
        Line n buf \<Rightarrow> 0 \<le> n \<and> (case decode (takeWhile (\<lambda>ch. ch \<noteq> CHR 0x00) buf) of
          Inl _ \<Rightarrow> False | Inr m \<Rightarrow> get_message_type m = OK)
      | _ \<Rightarrow> False)"

text \<open>A check of the result for all replies.\<close>

primrec ends_with :: "('act, 'rep, 'a) prog \<Rightarrow> ('a \<Rightarrow> bool) \<Rightarrow> bool" where
  "ends_with (Ret x) Q = Q x"
| "ends_with (Act a k) Q = (\<forall>r. ends_with (k r) Q)"

lemma ends_with_replay: "ends_with p Q \<Longrightarrow> replay p rs = Some (as, x) \<Longrightarrow> Q x"
proof (induction p arbitrary: rs as)
  case (Act a k)
  from Act.prems(2) obtain r rs' as' where "replay (k r) rs' = Some (as', x)"
    by (auto split: list.splits option.splits)
  with Act.IH [OF rangeI] Act.prems(1) show ?case by simp
qed (auto split: if_splits)

lemma ends_with_mono: "ends_with p Q \<Longrightarrow> (\<And>x. Q x \<Longrightarrow> Q' x) \<Longrightarrow> ends_with p Q'"
  by (induction p) auto

definition reported :: "console \<Rightarrow> exit_status \<times> console \<Rightarrow> bool" where
  "reported con fin \<longleftrightarrow> (case fin of (x, con') \<Rightarrow>
     (x = Exit 0 \<or> x = Exit 1) \<and> (\<exists>txt. c_err con' = c_err con @ txt \<and> (x = Exit 1 \<longrightarrow> txt \<noteq> [])))"

lemma encode_raises: "encode m = Inl e \<Longrightarrow> \<exists>x. e = Raise x"
  by (auto simp: encode_def Let_def split: if_splits)

lemma decode_raises: "decode s = Inl e \<Longrightarrow> \<exists>x. e = Raise x"
  by (auto simp: oor_def elim!: decode_fail_cases)

lemma accessor_raises:
  "get_quoted_text m = Inl e \<Longrightarrow> \<exists>x. e = Raise x" "get_value m = Inl e \<Longrightarrow> \<exists>x. e = Raise x"
  "error_text m = Inl e \<Longrightarrow> \<exists>x. e = Raise x"
  by (auto simp: get_quoted_text_def get_value_def get_arg_def error_text_def split: if_splits sum.splits)

lemma error_text_nonempty: "error_text m \<noteq> Inr []"
  by (auto simp: error_text_def split: sum.splits)

lemma reported_caught: "e = Raise x \<Longrightarrow> ends_with (caught e con) (reported con)"
  by (simp add: caught_def reported_def)

lemma reported_complain:
  assumes "msg \<noteq> Inr []" and "\<And>e. msg = Inl e \<Longrightarrow> \<exists>x. e = Raise x"
  shows "ends_with (complain msg (return_with 1) con) (reported con)"
  using assms by (cases msg) (auto simp: complain_def return_with_def reported_def caught_def)

lemma reported_ask:
  assumes k: "\<And>m. ends_with (k m con) (reported con)"
    and "nr \<noteq> Inr []" and "\<And>e. nr = Inl e \<Longrightarrow> \<exists>x. e = Raise x"
  shows "ends_with (ask fd req nr t k con) (reported con)"
proof -
  have bad: "ends_with (complain (error_text m) (return_with 1) con) (reported con)" for m
    using accessor_raises(3) by (rule reported_complain [OF error_text_nonempty])
  have dec: "ends_with (decode_response buf (\<lambda>resp. if get_message_type resp \<noteq> t
      then complain (error_text resp) (return_with 1) else k resp) con) (reported con)" for buf
  proof (cases "decode (takeWhile (\<lambda>ch. ch \<noteq> CHR 0x00) buf)")
    case (Inl e)
    then obtain x where "e = Raise x" using decode_raises by blast
    with Inl show ?thesis by (simp add: decode_response_def reported_caught)
  qed (simp add: decode_response_def bad k)
  have none: "ends_with (complain nr (return_with 1) con) (reported con)"
    by (rule reported_complain [OF assms(2,3)])
  show ?thesis
  proof (cases "encode req")
    case (Inl e)
    then obtain x where "e = Raise x" using encode_raises by blast
    with Inl show ?thesis by (simp add: ask_def send_receive_def reported_caught)
  qed (simp add: ask_def send_receive_def none dec [unfolded get_message_type_def] split: io_reply.split)
qed

lemma reported_more: "ends_with p (reported (con\<lparr>c_err := c_err con @ txt\<rparr>)) \<Longrightarrow> ends_with p (reported con)"
  by (erule ends_with_mono) (auto simp: reported_def)

lemma reported_open:
  assumes "\<And>fd con'. ends_with (k fd con') (reported con')"
  shows "ends_with (open_client h p k con) (reported con)"
  using reported_more [OF assms] assms by (simp add: open_client_def split: io_reply.split)

lemma reported_bye: "ends_with (bye_step fd con) (reported con)"
  unfolding bye_step_def by (rule reported_ask) (simp_all add: close_client_def reported_def)

lemma reported_incr: "ends_with (k con) (reported con) \<Longrightarrow> ends_with (incr_ask fd req k con) (reported con)"
  unfolding incr_ask_def by (rule reported_ask) simp_all

lemma reported_usage: "msg \<noteq> [] \<Longrightarrow> ends_with (complain (Inr msg) (return_with 1) con) (reported con)"
  by (rule reported_complain) simp_all

lemma set_value_reported: "ends_with (set_value_main argv con) (reported con)"
proof (cases "length argv = 7")
  case True
  then show ?thesis
    unfolding set_value_main_def set_login_def set_push_def set_set_def
    by simp (intro reported_open reported_ask reported_bye error_text_nonempty; use accessor_raises in simp)
qed (simp add: set_value_main_def reported_usage)

lemma incr_run_reported: "ends_with (incr_run tr n argv con) (reported con)"
  unfolding incr_run_def incr_begin_def incr_get_def incr_push_def incr_add_def incr_set_def incr_commit_def
  by (cases tr) (simp_all, (intro reported_open reported_incr reported_bye)+)

lemma incr_value_reported: "ends_with (incr_value_main argv con) (reported con)"
  unfolding incr_value_main_def by (simp add: incr_run_reported reported_usage)

text \<open>A conversation that ends with status 0.\<close>

lemma not_zero:
  "replay (caught e con) rs \<noteq> Some (as, Exit 0, con')"
  "replay (complain msg (return_with 1) con) rs \<noteq> Some (as, Exit 0, con')"
  by (auto simp: caught_def complain_def return_with_def split: failure.splits sum.splits)

lemma replay_ask:
  assumes "replay (ask fd req nr OK k con) rs = Some (as, Exit 0, con')"
  obtains w c r rs' as' m where "encode req = Inr w" "rs = c # r # rs'" "acknowledged r"
    "as = Write_fd fd w # Readline_fd fd (MAX_ENCODED_LEN + 1) # as'" "replay (k m con) rs' = Some (as', Exit 0, con')"
    "get_message_type m = OK"
proof -
  let ?p = "\<lambda>n buf. if n < 0 then complain nr (return_with 1) else decode_response buf (\<lambda>resp.
         if get_message_type resp \<noteq> OK then complain (error_text resp) (return_with 1) else k resp)"
  obtain w where w: "encode req = Inr w"
    using assms by (cases "encode req") (auto simp: ask_def send_receive_def not_zero)
  with assms obtain c r rs' as' where 1: "rs = c # r # rs'" "as = Write_fd fd w # Readline_fd fd (MAX_ENCODED_LEN + 1) # as'"
    "replay (case r of Line n buf \<Rightarrow> ?p n buf con | _ \<Rightarrow> complain nr (return_with 1) con) rs' = Some (as', Exit 0, con')"
    by (auto simp: ask_def send_receive_def split: list.splits option.splits)
  from 1(3) obtain n buf where r: "r = Line n buf" "0 \<le> n" and
    d: "replay (decode_response buf (\<lambda>resp. if get_message_type resp \<noteq> OK
      then complain (error_text resp) (return_with 1) else k resp) con) rs' = Some (as', Exit 0, con')"
    by (cases r) (auto simp: not_zero split: if_splits)
  from d obtain m where "decode (takeWhile (\<lambda>ch. ch \<noteq> CHR 0x00) buf) = Inr m" "get_message_type m = OK"
    "replay (k m con) rs' = Some (as', Exit 0, con')"
    by (auto simp: decode_response_def not_zero split: sum.splits if_splits)
  with w 1(1,2) r show thesis by (intro that) (auto simp: acknowledged_def)
qed

lemma replay_open:
  assumes "replay (open_client h p k con) rs = Some (as, Exit 0, con')"
  obtains fd r rs' as' con1 where "rs = r # rs'" "as = Open_fd h p # as'" "replay (k fd con1) rs' = Some (as', Exit 0, con')"
  using assms by (auto simp: open_client_def split: list.splits option.splits io_reply.splits)

subsection \<open>Properties\<close>

text \<open>C23. \<open>set_value\<close> ends with status 0 only if everything was done: whatever is at the other end
  of the socket, it has then sent \<open>LOGIN\<close>, \<open>PUSH\<close>, \<open>SET\<close> and \<open>BYE\<close> with its arguments, in this
  order, and read a line that decodes to \<open>OK\<close> after each of them.\<close>
theorem set_value_success_is_acknowledged:
  assumes "replay (set_value_main argv con) rs = Some (as, Exit 0, con')"
  shows "\<exists>fd w1 w2 w3 w4 r0 c1 r1 c2 r2 c3 r3 c4 r4 c5.
    as = [Open_fd (argv ! 1) (argv ! 2), Write_fd fd w1, Readline_fd fd 1025, Write_fd fd w2, Readline_fd fd 1025,
      Write_fd fd w3, Readline_fd fd 1025, Write_fd fd w4, Readline_fd fd 1025, Close_fd fd] \<and>
    rs = [r0, c1, r1, c2, r2, c3, r3, c4, r4, c5] \<and> (\<forall>r\<in>{r1, r2, r3, r4}. acknowledged r) \<and>
    encode (mk_message LOGIN [argv ! 3]) = Inr w1 \<and> encode (mk_message PUSH [argv ! 6]) = Inr w2 \<and>
    encode (mk_message SET [argv ! 4, argv ! 5]) = Inr w3 \<and> encode (mk_message BYE []) = Inr w4"
proof -
  have argc: "length argv = 7" using assms not_zero(2) by (force simp: set_value_main_def split: if_splits)
  have max: "MAX_ENCODED_LEN + 1 = 1025" by (simp add: MAX_ENCODED_LEN_def)
  obtain fd r0 rs0 as0 con0 where 0: "rs = r0 # rs0" "as = Open_fd (argv ! 1) (argv ! 2) # as0"
    "replay (set_login fd (argv ! 3) (\<lambda>loginResp. set_push fd loginResp (argv ! 6) (
        set_set fd (argv ! 4) (argv ! 5) (bye_step fd))) con0) rs0 = Some (as0, Exit 0, con')"
    using assms argc unfolding set_value_main_def by (auto elim!: replay_open)
  obtain w1 c1 r1 rs1 as1 m where 1: "encode (mk_message LOGIN [argv ! 3]) = Inr w1" "rs0 = c1 # r1 # rs1" "acknowledged r1"
    "as0 = Write_fd fd w1 # Readline_fd fd (MAX_ENCODED_LEN + 1) # as1"
    "replay (set_push fd m (argv ! 6) (set_set fd (argv ! 4) (argv ! 5) (bye_step fd)) con0) rs1 = Some (as1, Exit 0, con')"
    by (rule replay_ask [OF 0(3) [unfolded set_login_def]])
  obtain w2 c2 r2 rs2 as2 where 2: "encode (mk_message PUSH [argv ! 6]) = Inr w2" "rs1 = c2 # r2 # rs2" "acknowledged r2"
    "as1 = Write_fd fd w2 # Readline_fd fd (MAX_ENCODED_LEN + 1) # as2"
    "replay (set_set fd (argv ! 4) (argv ! 5) (bye_step fd) con0) rs2 = Some (as2, Exit 0, con')"
    by (rule replay_ask [OF 1(5) [unfolded set_push_def]])
  obtain w3 c3 r3 rs3 as3 where 3: "encode (mk_message SET [argv ! 4, argv ! 5]) = Inr w3" "rs2 = c3 # r3 # rs3" "acknowledged r3"
    "as2 = Write_fd fd w3 # Readline_fd fd (MAX_ENCODED_LEN + 1) # as3"
    "replay (bye_step fd con0) rs3 = Some (as3, Exit 0, con')"
    by (rule replay_ask [OF 2(5) [unfolded set_set_def]])
  obtain w4 c4 r4 rs4 as4 where 4: "encode (mk_message BYE []) = Inr w4" "rs3 = c4 # r4 # rs4" "acknowledged r4"
    "as3 = Write_fd fd w4 # Readline_fd fd (MAX_ENCODED_LEN + 1) # as4"
    "replay (close_client fd con0) rs4 = Some (as4, Exit 0, con')"
    by (rule replay_ask [OF 3(5) [unfolded bye_step_def]])
  from 4(5) obtain c5 where "rs4 = [c5]" "as4 = [Close_fd fd]"
    by (auto simp: close_client_def split: list.splits option.splits if_splits)
  with 0 1 2 3 4 show ?thesis unfolding max by auto
qed

lemma set_value_success_is_acknowledged_witness:
  "\<exists>as con' fd. replay (set_value_main [''./set_value'', ''h'', ''1'', ''bob'', ''t'', ''k'', ''5''] \<lparr>c_out = [], c_err = []\<rparr>)
      [Opened 3 [], Count 0, Line 3 ''OK\<newline>'', Count 0, Line 3 ''OK\<newline>'', Count 0, Line 3 ''OK\<newline>'', Count 0, Line 3 ''OK\<newline>'', Count 0] =
      Some (as, Exit 0, con') \<and>
    (\<exists>w. as ! 3 = Write_fd fd w \<and> encode (mk_message PUSH [''5'']) = Inr w)"
proof -
  let ?rs = "[Opened 3 [], Count 0, Line 3 ''OK\<newline>'', Count 0, Line 3 ''OK\<newline>'', Count 0, Line 3 ''OK\<newline>'', Count 0, Line 3 ''OK\<newline>'', Count 0]"
  let ?p = "set_value_main [''./set_value'', ''h'', ''1'', ''bob'', ''t'', ''k'', ''5''] \<lparr>c_out = [], c_err = []\<rparr>"
  have "case replay ?p ?rs of None \<Rightarrow> False | Some (as, x, con') \<Rightarrow> x = Exit 0" by code_simp
  then obtain as con' where r: "replay ?p ?rs = Some (as, Exit 0, con')" by (auto split: option.splits)
  with set_value_success_is_acknowledged [OF r] show ?thesis by auto
qed



end
