(* ===== verification/Key_Value_Spec.thy ===== *)
theory Key_Value_Spec
  imports Table Numeric
begin

section \<open>What a client is promised\<close>

text \<open>
  The protocol of the README as a function on an abstract state: the tables as functions from
  keys to values (the empty string where nothing was stored), the uncommitted changes of the
  client by table name, its value stack, and whether it is logged in and in a transaction.
  There are no locks, addresses, maps or machine integers here. \<open>spec_request\<close> gives the
  new state and the verdict on a valid request: an answer, with whether the connection stays
  open, or the end of the server process.
\<close>

record kv_state =
  sp_tables :: "string \<Rightarrow> (string \<Rightarrow> string) option"
  sp_changes :: "string \<Rightarrow> string \<rightharpoonup> string"
  sp_stack :: "string list"
  sp_login :: bool
  sp_transaction :: bool

datatype verdict = Answer Message bool | Abort failure

definition sp_ok :: "kv_state \<Rightarrow> kv_state \<times> verdict" where
  "sp_ok \<sigma> = (\<sigma>, Answer (mk_message OK []) True)"

definition sp_error :: "string \<Rightarrow> kv_state \<Rightarrow> kv_state \<times> verdict" where
  "sp_error m \<sigma> = (\<sigma>, Answer (mk_message ERROR [m]) False)"

text \<open>An operation that cannot be performed: reported, but fatal inside a transaction.\<close>

definition sp_failed :: "string \<Rightarrow> kv_state \<Rightarrow> kv_state \<times> verdict" where
  "sp_failed m \<sigma> =
     (\<sigma>, if sp_transaction \<sigma> then Abort (Raise (FailedTransaction ''operation failed during transaction''))
         else Answer (mk_message FAILED [m]) True)"

definition sp_arithmetic :: "(int \<Rightarrow> int \<Rightarrow> int option) \<Rightarrow> kv_state \<Rightarrow> kv_state \<times> verdict" where
  "sp_arithmetic f \<sigma> =
     (let bad = ''Stack is empty or operands are not valid'' in
      case sp_stack \<sigma> of
        a # b # r \<Rightarrow>
          (case (stoi a, stoi b) of
            (Inr x, Inr y) \<Rightarrow>
              (case f x y of
                Some z \<Rightarrow> sp_ok (\<sigma>\<lparr>sp_stack := show_int z # r\<rparr>)
              | None \<Rightarrow> (\<sigma>\<lparr>sp_stack := r\<rparr>, Abort Sigfpe))
          | _ \<Rightarrow> sp_failed bad (\<sigma>\<lparr>sp_stack := r\<rparr>))
      | _ \<Rightarrow> sp_failed bad (\<sigma>\<lparr>sp_stack := []\<rparr>))"

fun spec_op :: "MessageType \<Rightarrow> string list \<Rightarrow> kv_state \<Rightarrow> kv_state \<times> verdict" where
  "spec_op CREATE [n] \<sigma> =
     (if sp_tables \<sigma> n \<noteq> None then sp_error ''Table has already been created'' \<sigma>
      else sp_ok (\<sigma>\<lparr>sp_tables := (sp_tables \<sigma>)(n \<mapsto> (\<lambda>_. []))\<rparr>))"
| "spec_op PUSH [v] \<sigma> = sp_ok (\<sigma>\<lparr>sp_stack := v # sp_stack \<sigma>\<rparr>)"
| "spec_op POP [] \<sigma> =
     (case sp_stack \<sigma> of [] \<Rightarrow> sp_failed ''Stack is empty'' \<sigma>
      | v # r \<Rightarrow> sp_ok (\<sigma>\<lparr>sp_stack := r\<rparr>))"
| "spec_op TOP [] \<sigma> =
     (case sp_stack \<sigma> of [] \<Rightarrow> sp_failed ''Stack is empty'' \<sigma>
      | v # r \<Rightarrow> (\<sigma>, Answer (mk_message DATA [v]) True))"
| "spec_op SET [n, k] \<sigma> =
     (case sp_tables \<sigma> n of None \<Rightarrow> sp_error ''Table not found'' \<sigma>
      | Some f \<Rightarrow> (case sp_stack \<sigma> of [] \<Rightarrow> sp_failed ''Stack is empty'' \<sigma>
        | v # r \<Rightarrow>
            sp_ok (if sp_transaction \<sigma>
              then \<sigma>\<lparr>sp_stack := r, sp_changes := (sp_changes \<sigma>)(n := (sp_changes \<sigma> n)(k \<mapsto> v))\<rparr>
              else \<sigma>\<lparr>sp_stack := r, sp_tables := (sp_tables \<sigma>)(n \<mapsto> f(k := v))\<rparr>)))"
| "spec_op GET [n, k] \<sigma> =
     (case sp_tables \<sigma> n of None \<Rightarrow> sp_error ''Table not found'' \<sigma>
      | Some f \<Rightarrow> sp_ok (\<sigma>\<lparr>sp_stack := overlay f (sp_changes \<sigma> n) k # sp_stack \<sigma>\<rparr>))"
| "spec_op ADD [] \<sigma> = sp_arithmetic (\<lambda>x y. Some (x + y)) \<sigma>"
| "spec_op MUL [] \<sigma> = sp_arithmetic (\<lambda>x y. Some (x * y)) \<sigma>"
| "spec_op SUB [] \<sigma> = sp_arithmetic (\<lambda>x y. Some (y - x)) \<sigma>"
| "spec_op DIV [] \<sigma> = sp_arithmetic (\<lambda>x y. if x = 0 then None else Some (y sdiv x)) \<sigma>"
| "spec_op BEGIN [] \<sigma> = sp_ok (\<sigma>\<lparr>sp_transaction := True\<rparr>)"
| "spec_op COMMIT [] \<sigma> =
     sp_ok (\<sigma>\<lparr>sp_tables := (\<lambda>n. map_option (\<lambda>f. overlay f (sp_changes \<sigma> n)) (sp_tables \<sigma> n)),
       sp_changes := (\<lambda>_. Map.empty), sp_transaction := False\<rparr>)"
| "spec_op BYE [] \<sigma> = (\<sigma>, Answer (mk_message OK []) False)"
| "spec_op _ _ \<sigma> = sp_error ''Invalid message sent'' \<sigma>"

definition spec_request :: "Message \<Rightarrow> kv_state \<Rightarrow> kv_state \<times> verdict" where
  "spec_request req \<sigma> =
     (if get_message_type req = LOGIN then sp_ok (\<sigma>\<lparr>sp_login := True\<rparr>)
      else if \<not> sp_login \<sigma> then sp_error ''User not logged in'' \<sigma>
      else spec_op (get_message_type req) (m_args req) \<sigma>)"

end
