(* ===== verification/Refinement.thy ===== *)
theory Refinement
  imports Connection_Safety Key_Value_Spec
begin

section \<open>A connection implements the protocol\<close>

text \<open>
  \<open>quiet i c s\<close>: nobody but connection \<open>i\<close> holds a mutex, and it holds those of its
  transaction. \<open>view c s\<close> is the abstract state of theory \<open>Key_Value_Spec\<close> that connection
  and server represent. The theorem at the end is a simulation: for every request that the
  decoder accepts, one round of the loop does what the protocol says, answers what it says, and
  leaves a quiet state again. The one request that is left out is \<open>SET\<close> outside a transaction
  with an empty stack, which loses the lock of its table (theory \<open>Spec2Isabelle\<close>).
\<close>

definition view :: "conn \<Rightarrow> server \<Rightarrow> kv_state" where
  "view c s =
     \<lparr>sp_tables = (\<lambda>n. map_option (\<lambda>t. committed (the (heap s t))) (RBT.lookup (server_tables s) n)),
      sp_changes = (\<lambda>n. case RBT.lookup (server_tables s) n of None \<Rightarrow> Map.empty
        | Some t \<Rightarrow> pending (the (heap s t))),
      sp_stack = stk (client_stack c), sp_login = logged_in c, sp_transaction = transaction_mode c\<rparr>"

definition quiet :: "cid \<Rightarrow> conn \<Rightarrow> server \<Rightarrow> bool" where
  "quiet i c s \<longleftrightarrow>
     server_inv s \<and> tables_mutex s = None \<and> short_stack (client_stack c) \<and>
     (\<forall>t tb. heap s t = Some tb \<longrightarrow> m_mutex tb = (if t \<in> set (locked_tables c) then Some i else None)) \<and>
     set (locked_tables c) \<subseteq> dom (heap s) \<and> sorted (locked_tables c) \<and> distinct (locked_tables c) \<and>
     (\<not> transaction_mode c \<longrightarrow> locked_tables c = [])"

definition stack_bound :: "conn \<Rightarrow> bool" where
  "stack_bound c \<longleftrightarrow> length (stk (client_stack c)) < 2 ^ 32"

lemma view_sels [simp]:
  "sp_stack (view c s) = stk (client_stack c)" "sp_login (view c s) = logged_in c"
  "sp_transaction (view c s) = transaction_mode c"
  by (simp_all add: view_def)

lemma view_tables [simp]:
  "sp_tables (view c s) n = map_option (\<lambda>t. committed (the (heap s t))) (RBT.lookup (server_tables s) n)"
  "RBT.lookup (server_tables s) n = Some t \<Longrightarrow> sp_changes (view c s) n = pending (the (heap s t))"
  by (simp_all add: view_def)

lemma view_conn:
  "view (c\<lparr>response := m\<rparr>) s = view c s" "view (c\<lparr>sent := o'\<rparr>) s = view c s"
  "view (c\<lparr>locked_tables := l\<rparr>) s = view c s"
  "view (c\<lparr>client_stack := st\<rparr>) s = (view c s)\<lparr>sp_stack := stk st\<rparr>"
  "view (c\<lparr>logged_in := b\<rparr>) s = (view c s)\<lparr>sp_login := b\<rparr>"
  "view (c\<lparr>transaction_mode := b\<rparr>) s = (view c s)\<lparr>sp_transaction := b\<rparr>"
  by (simp_all add: view_def)

lemma quiet_conn:
  "quiet i (c\<lparr>response := m\<rparr>) s = quiet i c s" "quiet i (c\<lparr>sent := o'\<rparr>) s = quiet i c s"
  "quiet i (c\<lparr>logged_in := b\<rparr>) s = quiet i c s"
  by (simp_all add: quiet_def)

lemma quiet_stack: "quiet i c s \<Longrightarrow> short_stack st \<Longrightarrow> quiet i (c\<lparr>client_stack := st\<rparr>) s"
  by (simp add: quiet_def)

lemma quiet_parts:
  assumes "quiet i c s"
  shows "server_inv s" "tables_mutex s = None" "short_stack (client_stack c)" "stack_ok (client_stack c)"
  using assms by (simp_all add: quiet_def short_stack_def)

lemma quiet_mutex:
  "quiet i c s \<Longrightarrow> heap s t = Some tb \<Longrightarrow> m_mutex tb = (if t \<in> set (locked_tables c) then Some i else None)"
  by (simp add: quiet_def)

text \<open>Names and addresses correspond one to one.\<close>

lemma name_unique:
  assumes "server_inv s" and "RBT.lookup (server_tables s) n = Some t" and "RBT.lookup (server_tables s) n' = Some t"
  shows "n' = n"
  using server_inv_name [OF assms(1,2)] server_inv_name [OF assms(1,3)] by auto

lemma view_heap_upd:
  assumes "server_inv s" and "RBT.lookup (server_tables s) n = Some t"
  shows "view c (s\<lparr>heap := (heap s)(t \<mapsto> tb)\<rparr>) =
    (view c s)\<lparr>sp_tables := (sp_tables (view c s))(n \<mapsto> committed tb),
      sp_changes := (sp_changes (view c s))(n := pending tb)\<rparr>"
proof -
  let ?s = "s\<lparr>heap := (heap s)(t \<mapsto> tb)\<rparr>"
  have other: "t' \<noteq> t" if "RBT.lookup (server_tables s) m = Some t'" "m \<noteq> n" for m t'
    using that name_unique [OF assms] by blast
  have "map_option (\<lambda>t. committed (the (heap ?s t))) (RBT.lookup (server_tables ?s) m) =
      ((sp_tables (view c s))(n \<mapsto> committed tb)) m" for m
    using assms(2) other [of m] by (cases "RBT.lookup (server_tables s) m") auto
  moreover have "(case RBT.lookup (server_tables ?s) m of None \<Rightarrow> Map.empty | Some t \<Rightarrow> pending (the (heap ?s t))) =
      ((sp_changes (view c s))(n := pending tb)) m" for m
    using assms(2) other [of m] by (cases "RBT.lookup (server_tables s) m") (auto simp: view_def)
  ultimately show ?thesis by (simp add: view_def fun_eq_iff)
qed

subsection \<open>Running the operations alone\<close>

lemma tables_mutex_None:
  "tables_mutex s = None \<Longrightarrow> s\<lparr>tables_mutex := None\<rparr> = s"
  "tables_mutex s = None \<Longrightarrow>
   s\<lparr>server_tables := a, heap := b, next_addr := d, tables_mutex := None\<rparr> =
   s\<lparr>server_tables := a, heap := b, next_addr := d\<rparr>"
  by (cases s; simp)+

lemma run_find [simp]:
  "tables_mutex s = None \<Longrightarrow>
   run (exec i) (bind_prog (find_table n) f) s = run (exec i) (f (RBT.lookup (server_tables s) n)) s"
  by (simp add: find_table_def mutex_lock_def mutex_unlock_def tables_mutex_None)

lemma run_create [simp]:
  "tables_mutex s = None \<Longrightarrow>
   run (exec i) (bind_prog (create_table n) f) s =
   run (exec i) (f ()) (s\<lparr>server_tables := RBT.insert n (next_addr s) (server_tables s),
     heap := (heap s)(next_addr s \<mapsto> new_table n), next_addr := Suc (next_addr s)\<rparr>)"
  by (simp add: create_table_def mutex_lock_def mutex_unlock_def tables_mutex_None)

definition acquire :: "tid \<Rightarrow> conn \<Rightarrow> conn" where
  "acquire t c = (if transaction_mode c then c\<lparr>locked_tables := insort_insert t (locked_tables c)\<rparr> else c)"

lemma acquire_sels [simp]:
  "client_stack (acquire t c) = client_stack c" "transaction_mode (acquire t c) = transaction_mode c"
  "logged_in (acquire t c) = logged_in c" "sent (acquire t c) = sent c"
  "m_fdbuf (acquire t c) = m_fdbuf c" "input (acquire t c) = input c"
  by (simp_all add: acquire_def)

lemma run_locking:
  assumes "quiet i c s" and tb: "heap s t = Some tb"
  shows "run (exec i) (seq (handle_table_locking t) f c) s =
    run (exec i) (f () (acquire t c)) (s\<lparr>heap := (heap s)(t \<mapsto> tb\<lparr>m_mutex := Some i\<rparr>)\<rparr>)"
proof -
  note m = quiet_mutex [OF assms]
  have nt: "\<not> transaction_mode c \<Longrightarrow> locked_tables c = []" using assms(1) by (simp add: quiet_def)
  have held: "s\<lparr>heap := (heap s)(t \<mapsto> tb\<lparr>m_mutex := Some i\<rparr>)\<rparr> = s" if "t \<in> set (locked_tables c)"
  proof -
    have "tb\<lparr>m_mutex := Some i\<rparr> = tb" using m that by simp
    with tb show ?thesis by (simp add: fun_upd_idem)
  qed
  show ?thesis
    using m nt tb held
    by (auto simp: seq_def [of "handle_table_locking t"] handle_table_locking_def acquire_def
        table_is_locked_def ret_def act_def modify_def seq_def on_table_def table_trylock_eq
        mutex_lock_def table_lock_iff table_lock_def insort_insert_insort set_insort_insert
        insort_insert_key_def split: option.splits)
qed

lemma run_act:
  "heap s t = Some tb \<Longrightarrow> run (exec i) (Act (Put t k v) f) s =
     run (exec i) (f RUnit) (s\<lparr>heap := (heap s)(t \<mapsto> table_set k v tb)\<rparr>)"
  "heap s t = Some tb \<Longrightarrow> run (exec i) (Act (Get t k) f) s =
     run (exec i) (f (RStr (fst (table_get k tb)))) (s\<lparr>heap := (heap s)(t \<mapsto> snd (table_get k tb))\<rparr>)"
  by (simp_all add: on_table_def split: prod.splits)

definition release :: "bool \<Rightarrow> table \<Rightarrow> table" where
  "release in_transaction tb = (if in_transaction then tb else table_unlock (commit_changes tb))"

lemma run_autocommit:
  "heap s t = Some tb \<Longrightarrow>
   run (exec i) (seq (autocommit t) f c) s =
   run (exec i) (f () c) (s\<lparr>heap := (heap s)(t \<mapsto> release (transaction_mode c) tb)\<rparr>)"
  by (simp add: seq_def autocommit_def release_def ret_def act_def on_table_def fun_upd_idem)

subsection \<open>The handlers\<close>

fun verdict_of :: "bool result \<Rightarrow> conn \<Rightarrow> verdict" where
  "verdict_of (Inr k) c = Answer (response c) k"
| "verdict_of (Inl (Raise (OperationException m))) c =
     (if transaction_mode c then Abort (Raise (FailedTransaction ''operation failed during transaction''))
      else Answer (mk_message FAILED [m]) True)"
| "verdict_of (Inl (Raise (InvalidMessage m))) c = Answer (mk_message ERROR [m]) False"
| "verdict_of (Inl e) c = Abort e"

fun reported :: "bool result \<Rightarrow> conn \<Rightarrow> bool" where
  "reported (Inr k) c \<longleftrightarrow> (\<exists>w. encode (response c) = Inr w)"
| "reported (Inl (Raise (OperationException m))) c \<longleftrightarrow> length m \<le> 100"
| "reported (Inl (Raise (InvalidMessage m))) c \<longleftrightarrow> length m \<le> 100"
| "reported (Inl e) c \<longleftrightarrow> e = Sigfpe \<or> e = oor"

definition refines :: "cid \<Rightarrow> Message \<Rightarrow> conn \<Rightarrow> server \<Rightarrow> bool" where
  "refines i req c s \<longleftrightarrow>
     (\<exists>r c' s'. run (exec i) (dispatch req c) s = Finished (r, c') s' \<and> quiet i c' s' \<and>
       spec_op (get_message_type req) (m_args req) (view c s) = (view c' s', verdict_of r c') \<and>
       reported r c' \<and> sent c' = sent c \<and> m_fdbuf c' = m_fdbuf c \<and> input c' = input c)"

lemma refinesI:
  assumes "run (exec i) (dispatch req c) s = Finished (r, c') s'" and "quiet i c' s'"
    and "spec_op (get_message_type req) (m_args req) (view c s) = (view c' s', verdict_of r c')"
    and "reported r c'" and "sent c' = sent c" "m_fdbuf c' = m_fdbuf c" "input c' = input c"
  shows "refines i req c s"
  using assms unfolding refines_def by blast

lemma quiet_acquire:
  assumes "quiet i c s" and "heap s t = Some tb" and "short_table tb'" and "m_name tb' = m_name tb"
    and "m_mutex tb' = (if transaction_mode c then Some i else None)"
    and "\<not> transaction_mode c \<Longrightarrow> pending tb' = Map.empty"
  shows "quiet i (acquire t c) (s\<lparr>heap := (heap s)(t \<mapsto> tb')\<rparr>)"
proof -
  have "server_inv (s\<lparr>heap := (heap s)(t \<mapsto> tb')\<rparr>)"
    using assms(6) by (rule server_inv_heap_upd [OF quiet_parts(1) [OF assms(1)] assms(2-4)])
      (auto simp: assms(5) split: if_splits)
  then show ?thesis
    using assms by (auto simp: quiet_def acquire_def set_insort_insert sorted_insort_insert distinct_insort_insert)
qed

lemma view_acquire [simp]: "view (acquire t c) s = view c s"
  by (simp add: acquire_def view_conn)

lemma release_abs [simp]:
  "committed (release b tb) = (if b then committed tb else overlay (committed tb) (pending tb))"
  "pending (release b tb) = (if b then pending tb else Map.empty)"
  "m_name (release b tb) = m_name tb" "m_mutex (release b tb) = (if b then m_mutex tb else None)"
  by (simp_all add: release_def)

lemma short_table_release: "short_table tb \<Longrightarrow> short_table (release b tb)"
  by (simp add: release_def short_table_ops)

lemma stack_cases:
  assumes "quiet i c s" and "stack_bound c"
  obtains (empty) "is_empty (client_stack c)" "stk (client_stack c) = []"
      "get_top (client_stack c) = Inl (Raise (OperationException ''Stack is empty''))"
      "pop (client_stack c) = Inl (Raise (OperationException ''Stack is empty''))"
  | (top) v r st where "\<not> is_empty (client_stack c)" "stk (client_stack c) = v # r"
      "get_top (client_stack c) = Inr v" "pop (client_stack c) = Inr st" "stk st = r" "short_stack st"
      "length v \<le> MAX_VALUE"
proof (cases "stk (client_stack c)")
  case Nil
  then have "is_empty (client_stack c)"
    using quiet_parts(4) [OF assms(1)] by (simp add: is_empty_def stack_ok_def)
  with Nil show thesis by (intro empty) (simp_all add: get_top_empty pop_empty)
next
  case (Cons v r)
  note sh = quiet_parts(3,4) [OF assms(1)]
  have ne: "\<not> is_empty (client_stack c)"
    using Cons is_empty_iff [OF sh(2)] assms(2) by (simp add: stack_small_def stack_bound_def)
  have p: "pop (client_stack c) = Inr (client_stack c\<lparr>stk := r, total := total (client_stack c) - 1\<rparr>)"
    using pop_nonempty [OF sh(2) ne] Cons by simp
  have g: "get_top (client_stack c) = Inr v" using get_top_nonempty [OF sh(2) ne] Cons by simp
  show thesis
    by (rule top [OF ne Cons g p]) (use short_stack_pop [OF sh(1) p] short_stack_top [OF sh(1) g] in simp_all)
qed

lemma seq_if: "seq (\<lambda>c. if P c then m c else m' c) f c = (if P c then seq m f c else seq m' f c)"
  by (simp add: seq_def)

lemmas handler_run = dispatch_def cm_simps seq_if

lemma refines_push:
  assumes "m_args req = [v]" and "get_message_type req = PUSH" and "quiet i c s" and "length v \<le> MAX_VALUE"
  shows "refines i req c s"
  by (rule refinesI [where r = "Inr True" and s' = s and
        c' = "c\<lparr>client_stack := push v (client_stack c), response := mk_message OK []\<rparr>"])
    (use assms in \<open>simp_all add: handler_run push_request_handler_def get_value_def get_arg_def
      quiet_conn quiet_stack short_stack_push quiet_parts view_conn sp_ok_def\<close>)

lemma refines_pop:
  assumes "m_args req = []" and "get_message_type req = POP" and "quiet i c s" and "stack_bound c"
  shows "refines i req c s"
using assms(3,4)
proof (cases rule: stack_cases)
  case empty
  show ?thesis
    by (rule refinesI [where r = "Inl (Raise (OperationException ''Stack is empty''))" and s' = s and c' = c])
      (use assms empty in \<open>simp_all add: handler_run pop_request_handler_def seq_def sp_failed_def\<close>)
next
  case (top v r st)
  show ?thesis
    by (rule refinesI [where r = "Inr True" and s' = s and
        c' = "c\<lparr>client_stack := st, response := mk_message OK []\<rparr>"])
      (use assms top in \<open>simp_all add: handler_run pop_request_handler_def stack_pop_def seq_def sp_ok_def
        quiet_conn quiet_stack view_conn\<close>)
qed

lemma refines_top:
  assumes "m_args req = []" and "get_message_type req = TOP" and "quiet i c s" and "stack_bound c"
  shows "refines i req c s"
using assms(3,4)
proof (cases rule: stack_cases)
  case empty
  show ?thesis
    by (rule refinesI [where r = "Inl (Raise (OperationException ''Stack is empty''))" and s' = s and c' = c])
      (use assms empty in \<open>simp_all add: handler_run top_request_handler_def seq_def sp_failed_def\<close>)
next
  case (top v r st)
  show ?thesis
    by (rule refinesI [where r = "Inr True" and s' = s and c' = "c\<lparr>response := mk_message DATA [v]\<rparr>"])
      (use assms top in \<open>simp_all add: handler_run top_request_handler_def stack_top_def seq_def
        quiet_conn view_conn encode_one\<close>)
qed

lemma refines_create:
  assumes "m_args req = [n]" and "get_message_type req = CREATE" and "quiet i c s"
  shows "refines i req c s"
proof (cases "RBT.lookup (server_tables s) n")
  case (Some t)
  show ?thesis
    by (rule refinesI [where r = "Inl (Raise (InvalidMessage ''Table has already been created''))" and s' = s and c' = c])
      (use assms Some quiet_parts(2) [OF assms(3)] in
        \<open>simp_all add: handler_run create_request_handler_def get_table_def get_arg_def sp_error_def\<close>)
next
  case None
  let ?s = "s\<lparr>server_tables := RBT.insert n (next_addr s) (server_tables s),
     heap := (heap s)(next_addr s \<mapsto> new_table n), next_addr := Suc (next_addr s)\<rparr>"
  note inv = quiet_parts(1) [OF assms(3)]
  have fresh: "heap s (next_addr s) = None" using inv by (simp add: server_inv_def)
  have old: "RBT.lookup (server_tables s) m \<noteq> Some (next_addr s)" for m
    using server_inv_name [OF inv, of m "next_addr s"] fresh by auto
  have "server_inv ?s"
    using inv old by (auto simp: server_inv_def)
  moreover have "next_addr s \<notin> set (locked_tables c)" using assms(3) fresh by (auto simp: quiet_def)
  ultimately have q: "quiet i c ?s" using assms(3) by (auto simp: quiet_def)
  have v: "view c ?s = (view c s)\<lparr>sp_tables := (sp_tables (view c s))(n \<mapsto> (\<lambda>_. []))\<rparr>"
  proof -
    have "map_option (\<lambda>t. committed (the (heap ?s t))) (RBT.lookup (server_tables ?s) m) =
        ((sp_tables (view c s))(n \<mapsto> (\<lambda>_. []))) m" for m
      using old [of m] by (cases "RBT.lookup (server_tables s) m") auto
    moreover have "(case RBT.lookup (server_tables ?s) m of None \<Rightarrow> Map.empty | Some t \<Rightarrow> pending (the (heap ?s t))) =
        sp_changes (view c s) m" for m
      using None old [of m] by (cases "RBT.lookup (server_tables s) m") (auto simp: view_def)
    ultimately show ?thesis by (simp add: view_def fun_eq_iff)
  qed
  show ?thesis
    by (rule refinesI [where r = "Inr True" and s' = ?s and c' = "c\<lparr>response := mk_message OK []\<rparr>"])
      (use assms None q v quiet_parts(2) [OF assms(3)] in
        \<open>simp_all add: handler_run create_request_handler_def get_table_def get_arg_def sp_ok_def
          quiet_conn view_conn\<close>)
qed

lemma view_heap_same:
  assumes "server_inv s" and "RBT.lookup (server_tables s) n = Some t" and "heap s t = Some tb"
    and "committed tb' = committed tb" and "pending tb' = pending tb"
  shows "view c (s\<lparr>heap := (heap s)(t \<mapsto> tb')\<rparr>) = view c s"
proof -
  have "(sp_tables (view c s))(n \<mapsto> committed tb') = sp_tables (view c s)"
    "(sp_changes (view c s))(n := pending tb') = sp_changes (view c s)"
    using assms(2-5) by (auto simp: fun_upd_idem_iff)
  with view_heap_upd [OF assms(1,2), of c tb'] show ?thesis by simp
qed

lemma quiet_table:
  assumes "quiet i c s" and "RBT.lookup (server_tables s) n = Some t"
  obtains tb where "heap s t = Some tb" "short_table tb" "\<not> transaction_mode c \<Longrightarrow> pending tb = Map.empty"
proof -
  obtain tb where tb: "heap s t = Some tb" using server_inv_name [OF quiet_parts(1) [OF assms(1)] assms(2)] by auto
  have "m_mutex tb = None" if "\<not> transaction_mode c"
    using quiet_mutex [OF assms(1) tb] assms(1) that by (simp add: quiet_def)
  with server_inv_table [OF quiet_parts(1) [OF assms(1)] tb] tb show thesis by (intro that) auto
qed

lemma refines_get:
  assumes "m_args req = [n, k]" and "get_message_type req = GET" and q: "quiet i c s"
  shows "refines i req c s"
proof (cases "RBT.lookup (server_tables s) n")
  case None
  show ?thesis
    by (rule refinesI [where r = "Inl (Raise (InvalidMessage ''Table not found''))" and s' = s and c' = c])
      (use assms None quiet_parts(2) [OF q] in
        \<open>simp_all add: handler_run get_request_handler_def get_table_def get_arg_def sp_error_def\<close>)
next
  case (Some t)
  obtain tb where tb: "heap s t = Some tb" "short_table tb" "\<not> transaction_mode c \<Longrightarrow> pending tb = Map.empty"
    using quiet_table [OF q Some] by blast
  let ?tb = "release (transaction_mode c) (snd (table_get k (tb\<lparr>m_mutex := Some i\<rparr>)))"
  let ?v = "overlay (committed tb) (pending tb) k"
  let ?s = "s\<lparr>heap := (heap s)(t \<mapsto> ?tb)\<rparr>"
  let ?c = "acquire t c\<lparr>client_stack := push ?v (client_stack c), response := mk_message OK []\<rparr>"
  have quiet': "quiet i (acquire t c) ?s"
    by (rule quiet_acquire [OF q tb(1)]) (use tb in \<open>simp_all add: short_table_release short_table_ops\<close>)
  have view': "view c ?s = view c s"
    by (rule view_heap_same [OF quiet_parts(1) [OF q] Some tb(1)]) (use tb(3) in auto)
  have len: "length ?v \<le> MAX_VALUE" by (rule short_table_get [OF tb(2)])
  have "run (exec i) (dispatch req c) s = Finished (Inr True, ?c) ?s"
    using assms(1,2) Some quiet_parts(2) [OF q]
    by (simp add: handler_run get_request_handler_def get_table_def get_key_def get_arg_def
        run_locking [OF q tb(1)] run_act run_autocommit table_get_result del: run.simps(2))
  then show ?thesis
    by (rule refinesI)
      (use assms(1,2) Some tb quiet' view' len quiet_parts(3) [OF q] in
        \<open>simp_all add: quiet_conn quiet_stack short_stack_push view_conn sp_ok_def\<close>)
qed

lemma refines_set:
  assumes "m_args req = [n, k]" and "get_message_type req = SET" and q: "quiet i c s" and "stack_bound c"
    and keeps: "transaction_mode c \<or> \<not> is_empty (client_stack c)"
  shows "refines i req c s"
proof (cases "RBT.lookup (server_tables s) n")
  case None
  show ?thesis
    by (rule refinesI [where r = "Inl (Raise (InvalidMessage ''Table not found''))" and s' = s and c' = c])
      (use assms None quiet_parts(2) [OF q] in
        \<open>simp_all add: handler_run set_request_handler_def get_table_def get_arg_def sp_error_def\<close>)
next
  case (Some t)
  obtain tb where tb: "heap s t = Some tb" "short_table tb" "\<not> transaction_mode c \<Longrightarrow> pending tb = Map.empty"
    using quiet_table [OF q Some] by blast
  from q assms(4) show ?thesis
  proof (cases rule: stack_cases)
    case empty
    let ?s = "s\<lparr>heap := (heap s)(t \<mapsto> tb\<lparr>m_mutex := Some i\<rparr>)\<rparr>"
    have tm: "transaction_mode c" using keeps empty(1) by simp
    have quiet': "quiet i (acquire t c) ?s"
      by (rule quiet_acquire [OF q tb(1)]) (use tb tm in \<open>simp_all add: short_table_ops\<close>)
    have view': "view c ?s = view c s"
      by (rule view_heap_same [OF quiet_parts(1) [OF q] Some tb(1)]) auto
    have "run (exec i) (dispatch req c) s =
        Finished (Inl (Raise (OperationException ''Stack is empty'')), acquire t c) ?s"
      using assms(1,2) Some quiet_parts(2) [OF q] empty(1)
      by (simp add: handler_run set_request_handler_def get_table_def get_arg_def run_locking [OF q tb(1)])
    then show ?thesis
      by (rule refinesI) (use assms(1,2) Some tb empty quiet' view' tm in \<open>simp_all add: sp_failed_def\<close>)
  next
    case (top v r st)
    let ?tb = "release (transaction_mode c) (table_set k v (tb\<lparr>m_mutex := Some i\<rparr>))"
    let ?s = "s\<lparr>heap := (heap s)(t \<mapsto> ?tb)\<rparr>"
    let ?c = "acquire t c\<lparr>client_stack := st, response := mk_message OK []\<rparr>"
    have quiet': "quiet i (acquire t c) ?s"
      by (rule quiet_acquire [OF q tb(1)]) (use tb top(7) in \<open>simp_all add: short_table_release short_table_ops\<close>)
    have view': "view c ?s = (view c s)\<lparr>sp_tables := (sp_tables (view c s))(n \<mapsto> committed ?tb),
        sp_changes := (sp_changes (view c s))(n := pending ?tb)\<rparr>"
      by (rule view_heap_upd [OF quiet_parts(1) [OF q] Some])
    have "run (exec i) (dispatch req c) s = Finished (Inr True, ?c) ?s"
      using assms(1,2) Some quiet_parts(2) [OF q] top
      by (simp add: handler_run set_request_handler_def get_table_def get_key_def get_arg_def
          seq_def [of stack_top] seq_def [of stack_pop] stack_top_def stack_pop_def
          run_locking [OF q tb(1)] run_act run_autocommit del: run.simps(2))
    then show ?thesis
    proof (rule refinesI)
      have same: "(sp_tables (view c s))(n \<mapsto> committed tb) = sp_tables (view c s)"
        using Some tb(1) by (simp add: fun_upd_idem_iff)
      have none: "(sp_changes (view c s))(n := Map.empty) = sp_changes (view c s)" if "\<not> transaction_mode c"
        using Some tb(1) tb(3) [OF that] by (simp add: fun_upd_idem_iff)
      have "view ?c ?s = (if transaction_mode c
          then (view c s)\<lparr>sp_stack := r, sp_changes := (sp_changes (view c s))(n := (pending tb)(k \<mapsto> v))\<rparr>
          else (view c s)\<lparr>sp_stack := r, sp_tables := (sp_tables (view c s))(n \<mapsto> (committed tb)(k := v))\<rparr>)"
        using view' top(5) same none tb(3)
        by (auto simp: view_conn overlay_upd intro!: kv_state.equality)
      then show "spec_op (get_message_type req) (m_args req) (view c s) = (view ?c ?s, verdict_of (Inr True) ?c)"
        using assms(1,2) Some tb(1) top(2) by (simp add: sp_ok_def)
    qed (use quiet' top in \<open>simp_all add: quiet_conn quiet_stack\<close>)
  qed
qed

subsection \<open>Arithmetic\<close>

definition operands :: "string list \<Rightarrow> (int64 \<times> int64) option" where
  "operands xs =
     (case xs of
        a # b # r \<Rightarrow> (case (stoi a, stoi b) of
            (Inr x, Inr y) \<Rightarrow> Some (word_of_int x, word_of_int y) | _ \<Rightarrow> None)
      | _ \<Rightarrow> None)"

lemma pop_two_values_run:
  assumes "quiet i c s" and "stack_bound c"
  shows "\<exists>st. pop_two_values c = Ret (Inr (operands (stk (client_stack c))), c\<lparr>client_stack := st\<rparr>) \<and>
    short_stack st \<and> stk st = drop 2 (stk (client_stack c))"
  using assms
proof (cases rule: stack_cases)
  case empty
  then have "pop_two_values c = Ret (Inr None, c\<lparr>client_stack := client_stack c\<rparr>)"
    by (simp add: pop_two_values_def seq_def stack_top_def lift_def)
  with empty quiet_parts(3) [OF assms(1)] show ?thesis
    by (intro exI [of _ "client_stack c"]) (simp add: operands_def)
next
  case (top a r st)
  have q: "quiet i (c\<lparr>client_stack := st\<rparr>) s" by (rule quiet_stack [OF assms(1) top(6)])
  have b: "stack_bound (c\<lparr>client_stack := st\<rparr>)" using assms(2) top(2,5) by (simp add: stack_bound_def)
  have one: "seq stack_top f c = f a c" "seq stack_pop g c = g () (c\<lparr>client_stack := st\<rparr>)" for f g
    using top by (simp_all add: seq_def stack_top_def stack_pop_def lift_def ret_def)
  from q b show ?thesis
  proof (cases rule: stack_cases)
    case empty
    then have "pop_two_values c = Ret (Inr None, c\<lparr>client_stack := st\<rparr>)"
      unfolding pop_two_values_def one by (simp add: seq_def stack_top_def lift_def)
    with top empty show ?thesis by (auto simp: operands_def)
  next
    case (top b' r' st')
    have two: "seq stack_top f (c\<lparr>client_stack := st\<rparr>) = f b' (c\<lparr>client_stack := st\<rparr>)"
      "seq stack_pop g (c\<lparr>client_stack := st\<rparr>) = g () (c\<lparr>client_stack := st'\<rparr>)" for f g
      using top by (simp_all add: seq_def stack_top_def stack_pop_def lift_def ret_def)
    have xs: "stk (client_stack c) = a # b' # r'" using \<open>stk (client_stack c) = a # r\<close> \<open>stk st = r\<close> top by simp
    have "pop_two_values c = Ret (Inr (operands (a # b' # r')), c\<lparr>client_stack := st'\<rparr>)"
      unfolding pop_two_values_def one two
      using stoi_fail [of a] stoi_fail [of b']
      by (auto simp: seq_lift operands_def ret_def split: sum.splits)
    with top(5,6) xs show ?thesis by auto
  qed
qed

lemma to_string_int: "sint w = z \<Longrightarrow> to_string w = show_int z"
  by (simp add: to_string_def)

lemma refines_arithmetic:
  assumes q: "quiet i c s" and b: "stack_bound c"
    and d: "dispatch req c = seq (arithmetic_request_handler req op) (\<lambda>_. ret True) c"
    and sp: "spec_op (get_message_type req) (m_args req) (view c s) = sp_arithmetic f (view c s)"
    and op: "\<And>x y. int32 x \<Longrightarrow> int32 y \<Longrightarrow>
      (case f x y of None \<Rightarrow> op (word_of_int x) (word_of_int y) = Inl Sigfpe
       | Some z \<Rightarrow> \<exists>r. op (word_of_int x) (word_of_int y) = Inr r \<and> sint r = z)"
  shows "refines i req c s"
proof -
  let ?bad = "''Stack is empty or operands are not valid''"
  obtain st where p: "pop_two_values c = Ret (Inr (operands (stk (client_stack c))), c\<lparr>client_stack := st\<rparr>)"
    and st: "short_stack st" "stk st = drop 2 (stk (client_stack c))"
    using pop_two_values_run [OF q b] by blast
  let ?c = "c\<lparr>client_stack := st\<rparr>"
  have q': "quiet i ?c s" by (rule quiet_stack [OF q st(1)])
  have pop: "seq pop_two_values g c = g (operands (stk (client_stack c))) ?c" for g
    by (simp add: seq_def p)
  show ?thesis
  proof (cases "operands (stk (client_stack c))")
    case None
    have "run (exec i) (dispatch req c) s = Finished (Inl (Raise (OperationException ?bad)), ?c) s"
      unfolding d arithmetic_request_handler_def by (simp add: seq_assoc pop None seq_throw)
    then show ?thesis
    proof (rule refinesI)
      have "sp_arithmetic f (view c s) = sp_failed ?bad (view ?c s)"
        using None st(2) by (auto simp: sp_arithmetic_def operands_def view_conn split: list.splits sum.splits)
      then show "spec_op (get_message_type req) (m_args req) (view c s) =
          (view ?c s, verdict_of (Inl (Raise (OperationException ?bad))) ?c)"
        using sp by (simp add: sp_failed_def)
    qed (use q' in simp_all)
  next
    case (Some w)
    then obtain a b' r x y where xs: "stk (client_stack c) = a # b' # r" "stoi a = Inr x" "stoi b' = Inr y"
      and w: "w = (word_of_int x, word_of_int y)"
      by (auto simp: operands_def split: list.splits sum.splits)
    have xy: "int32 x" "int32 y" using stoi_range xs(2,3) by (auto simp: int32_def)
    show ?thesis
    proof (cases "f x y")
      case None
      with op [OF xy] have "op (word_of_int x) (word_of_int y) = Inl Sigfpe" by simp
      then have "run (exec i) (dispatch req c) s = Finished (Inl Sigfpe, ?c) s"
        unfolding d arithmetic_request_handler_def by (simp add: seq_assoc pop Some w seq_lift)
      then show ?thesis
        by (rule refinesI) (use q' sp xs None st(2) in \<open>simp_all add: sp_arithmetic_def view_conn\<close>)
    next
      case (Some z)
      with op [OF xy] obtain v where v: "op (word_of_int x) (word_of_int y) = Inr v" "sint v = z" by auto
      let ?c' = "c\<lparr>client_stack := push (to_string v) st, response := mk_message OK []\<rparr>"
      have len: "length (to_string v) \<le> MAX_VALUE" using length_to_string [of v] by (simp add: MAX_VALUE_def)
      have "run (exec i) (dispatch req c) s = Finished (Inr True, ?c') s"
        unfolding d arithmetic_request_handler_def
        by (simp add: seq_assoc pop \<open>operands (stk (client_stack c)) = Some w\<close> w seq_lift v seq_stack_push
            seq_respond ret_def)
      then show ?thesis
        by (rule refinesI)
          (use q sp xs Some v st len in
            \<open>simp_all add: sp_arithmetic_def view_conn quiet_conn quiet_stack short_stack_push sp_ok_def to_string_int\<close>)
    qed
  qed
qed

subsection \<open>Transactions\<close>

lemma run_commit_each:
  "distinct ts \<Longrightarrow> set ts \<subseteq> dom (heap s) \<Longrightarrow>
   run (exec i) (seq (commit_each ts) f c) s =
   run (exec i) (f () c)
     (s\<lparr>heap := (\<lambda>t. if t \<in> set ts then map_option (release False) (heap s t) else heap s t)\<rparr>)"
proof (induction ts arbitrary: s)
  case Nil
  then show ?case by (simp add: seq_ret)
next
  case (Cons t ts)
  then obtain tb where tb: "heap s t = Some tb" by auto
  let ?s = "s\<lparr>heap := (heap s)(t \<mapsto> release False tb)\<rparr>"
  have "run (exec i) (seq (commit_each (t # ts)) f c) s = run (exec i) (seq (commit_each ts) f c) ?s"
    using tb by (simp add: seq_assoc seq_act on_table_def release_def)
  also have "\<dots> = run (exec i) (f () c)
     (?s\<lparr>heap := (\<lambda>t. if t \<in> set ts then map_option (release False) (heap ?s t) else heap ?s t)\<rparr>)"
    using Cons.prems by (intro Cons.IH) auto
  also have "?s\<lparr>heap := (\<lambda>t. if t \<in> set ts then map_option (release False) (heap ?s t) else heap ?s t)\<rparr> =
      s\<lparr>heap := (\<lambda>t'. if t' \<in> set (t # ts) then map_option (release False) (heap s t') else heap s t')\<rparr>"
    using Cons.prems(1) tb by (auto simp: fun_eq_iff)
  finally show ?case .
qed

lemma seq_commit_tables:
  "seq commit_tables f c =
   seq (commit_each (locked_tables c)) (\<lambda>_. seq (modify (\<lambda>c. c\<lparr>locked_tables := []\<rparr>)) f) c"
  unfolding seq_assoc [symmetric]
  by (simp only: seq_def [of commit_tables] seq_def [of "seq (commit_each ts) g" for ts g] commit_tables_def)

lemma refines_commit:
  assumes "m_args req = []" and "get_message_type req = COMMIT" and q: "quiet i c s"
  shows "refines i req c s"
proof -
  let ?h = "\<lambda>t. if t \<in> set (locked_tables c) then map_option (release False) (heap s t) else heap s t"
  let ?s = "s\<lparr>heap := ?h\<rparr>"
  let ?c = "c\<lparr>locked_tables := [], transaction_mode := False, response := mk_message OK []\<rparr>"
  have ts: "distinct (locked_tables c)" "set (locked_tables c) \<subseteq> dom (heap s)" using q by (auto simp: quiet_def)
  have clean: "pending tb = Map.empty" if "heap s t = Some tb" "t \<notin> set (locked_tables c)" for t tb
    using quiet_mutex [OF q that(1)] server_inv_table(2) [OF quiet_parts(1) [OF q] that(1)] that(2) by simp
  have "server_inv ?s"
    using quiet_parts(1) [OF q] by (fastforce simp: server_inv_def short_table_release split: if_splits)
  then have q': "quiet i ?c ?s"
    using q by (auto simp: quiet_def split: if_splits)
  have run': "run (exec i) (dispatch req c) s = Finished (Inr True, ?c) ?s"
    using assms(1,2)
    by (simp add: dispatch_def seq_commit_tables run_commit_each [OF ts] cm_simps)
  have same: "map_option (\<lambda>t. committed (the (heap ?s t))) (RBT.lookup (server_tables s) n) =
      map_option (\<lambda>g. overlay g (sp_changes (view c s) n)) (sp_tables (view c s) n)"
    "(case RBT.lookup (server_tables s) n of None \<Rightarrow> Map.empty | Some t \<Rightarrow> pending (the (heap ?s t))) = Map.empty" for n
  proof (atomize (full), cases "RBT.lookup (server_tables s) n")
    case (Some t)
    obtain tb where "heap s t = Some tb" using server_inv_name [OF quiet_parts(1) [OF q] Some] by auto
    with Some clean [of t tb] show "map_option (\<lambda>t. committed (the (heap ?s t))) (RBT.lookup (server_tables s) n) =
      map_option (\<lambda>g. overlay g (sp_changes (view c s) n)) (sp_tables (view c s) n) \<and>
      (case RBT.lookup (server_tables s) n of None \<Rightarrow> Map.empty | Some t \<Rightarrow> pending (the (heap ?s t))) = Map.empty"
      by auto
  qed simp
  have "view ?c ?s = (view c s)\<lparr>sp_tables := (\<lambda>n. map_option (\<lambda>g. overlay g (sp_changes (view c s) n)) (sp_tables (view c s) n)),
       sp_changes := (\<lambda>_. Map.empty), sp_transaction := False\<rparr>"
    using same(1) same(2) [THEN ext] by (intro kv_state.equality) (simp_all add: view_def)
  with run' show ?thesis
    by (intro refinesI [OF run' q']) (use assms(1,2) in \<open>simp_all add: sp_ok_def\<close>)
qed

lemma refines_begin_bye:
  assumes "m_args req = []" and "get_message_type req = BEGIN \<or> get_message_type req = BYE" and q: "quiet i c s"
  shows "refines i req c s"
proof -
  have "quiet i (c\<lparr>response := mk_message OK [], transaction_mode := True\<rparr>) s" using q by (simp add: quiet_def)
  moreover have "get_message_type req = BEGIN \<Longrightarrow> run (exec i) (dispatch req c) s =
      Finished (Inr True, c\<lparr>response := mk_message OK [], transaction_mode := True\<rparr>) s"
    "get_message_type req = BYE \<Longrightarrow> run (exec i) (dispatch req c) s =
      Finished (Inr False, c\<lparr>response := mk_message OK []\<rparr>) s"
    by (simp_all add: handler_run)
  ultimately show ?thesis
    using assms by (auto intro!: refinesI simp: sp_ok_def view_conn quiet_conn)
qed

subsection \<open>One round of the loop\<close>

text \<open>A \<open>SET\<close> outside a transaction on an empty stack, the one request that is left out.\<close>

definition loses_lock :: "Message \<Rightarrow> conn \<Rightarrow> bool" where
  "loses_lock req c \<longleftrightarrow> get_message_type req = SET \<and> \<not> transaction_mode c \<and> stk (client_stack c) = []"

lemma dispatch_refines:
  assumes "is_valid req" and q: "quiet i c s" and b: "stack_bound c" and "\<not> loses_lock req c"
    and size: "get_message_type req = PUSH \<Longrightarrow> total_length (m_args req) \<le> MAX_VALUE"
    and "get_message_type req \<noteq> LOGIN"
  shows "refines i req c s"
proof -
  note args = is_valid_args_0 [OF assms(1)] is_valid_args_1 [OF assms(1)] is_valid_args_2 [OF assms(1)]
  have "is_empty (client_stack c) \<longleftrightarrow> stk (client_stack c) = []"
    using quiet_parts(4) [OF q] b by (simp add: is_empty_iff stack_small_def stack_bound_def)
  then have set_ok: "get_message_type req = SET \<Longrightarrow> transaction_mode c \<or> \<not> is_empty (client_stack c)"
    using assms(4) by (auto simp: loses_lock_def)
  have other: "refines i req c s"
    if "dispatch req c = Ret (Inl (Raise (InvalidMessage ''Invalid message sent'')), c)"
      "spec_op (get_message_type req) (m_args req) (view c s) = sp_error ''Invalid message sent'' (view c s)"
    by (rule refinesI [where r = "Inl (Raise (InvalidMessage ''Invalid message sent''))" and c' = c and s' = s])
      (use that q in \<open>simp_all add: sp_error_def\<close>)
  show ?thesis
  proof (cases "get_message_type req")
    case PUSH
    then obtain v where "m_args req = [v]" using args(2) by auto
    with PUSH size show ?thesis by (intro refines_push [OF _ _ q]) auto
  next
    case CREATE
    then obtain n where "m_args req = [n]" using args(2) by auto
    with CREATE show ?thesis by (intro refines_create [OF _ _ q])
  next
    case SET
    then have "m_message_type req \<in> {SET, GET}" by simp
    then obtain n k where "m_args req = [n, k]" by (rule args(3))
    with SET set_ok show ?thesis by (intro refines_set [OF _ _ q b])
  next
    case GET
    then have "m_message_type req \<in> {SET, GET}" by simp
    then obtain n k where "m_args req = [n, k]" by (rule args(3))
    with GET show ?thesis by (intro refines_get [OF _ _ q])
  next
    case ADD
    with args(1) show ?thesis
      by (intro refines_arithmetic [OF q b, where op = op_add and f = "\<lambda>x y. Some (x + y)"])
        (simp_all add: dispatch_def op_add_exact)
  next
    case SUB
    with args(1) show ?thesis
      by (intro refines_arithmetic [OF q b, where op = op_sub and f = "\<lambda>x y. Some (y - x)"])
        (simp_all add: dispatch_def op_sub_exact)
  next
    case MUL
    with args(1) show ?thesis
      by (intro refines_arithmetic [OF q b, where op = op_mul and f = "\<lambda>x y. Some (x * y)"])
        (simp_all add: dispatch_def op_mul_exact)
  next
    case DIV
    with args(1) show ?thesis
      by (intro refines_arithmetic [OF q b, where op = op_div and
            f = "\<lambda>x y. if x = 0 then None else Some (y sdiv x)"])
        (simp_all add: dispatch_def op_div_exact op_div_zero)
  next
    case POP
    with args(1) show ?thesis by (intro refines_pop [OF _ _ q b]) simp_all
  next
    case TOP
    with args(1) show ?thesis by (intro refines_top [OF _ _ q b]) simp_all
  next
    case BEGIN
    with args(1) show ?thesis by (intro refines_begin_bye [OF _ _ q]) simp_all
  next
    case BYE
    with args(1) show ?thesis by (intro refines_begin_bye [OF _ _ q]) simp_all
  next
    case COMMIT
    with args(1) show ?thesis by (intro refines_commit [OF _ _ q]) simp_all
  next
    case LOGIN
    with assms(6) show ?thesis by simp
  qed (auto intro!: other simp: dispatch_def throw_def fail_def)
qed

lemma run_finish:
  assumes "encode (response c) = Inr w"
  shows "run ex (finish_iteration k c) s = Finished (Inr k, c\<lparr>sent := sent c @ [w]\<rparr>) s"
  using assms by (simp add: finish_iteration_def seq_def return_response_to_client_def lift_def modify_def ret_def)

text \<open>How a round ends, from the way its \<open>try\<close> block ends.\<close>

lemma run_round_end:
  assumes "verdict_of r c = Answer m k" and "reported r c"
  shows "\<exists>w. encode m = Inr w \<and> length w \<le> MAX_ENCODED_LEN \<and>
    run ex (case r of Inl e \<Rightarrow> catch_clauses e c | Inr k \<Rightarrow> finish_iteration k c) s =
      Finished (Inr k, c\<lparr>response := m, sent := sent c @ [w]\<rparr>) s"
proof -
  have len: "encode x = Inr w \<Longrightarrow> length w \<le> MAX_ENCODED_LEN" for x w
    by (auto simp: encode_def Let_def split: if_splits)
  have enc: "\<exists>w. encode (mk_message t [x]) = Inr w" if "t = FAILED \<or> t = ERROR" "length x \<le> 100" for t x
    using that by (intro encode_one) (auto simp: MAX_VALUE_def)
  consider (answer) "r = Inr k" "m = response c"
    | (operation) x where "r = Inl (Raise (OperationException x))" "\<not> transaction_mode c" "m = mk_message FAILED [x]" "k"
    | (message) x where "r = Inl (Raise (InvalidMessage x))" "m = mk_message ERROR [x]" "\<not> k"
    using assms(1) by (cases "(r, c)" rule: verdict_of.cases) (auto split: if_splits)
  then show ?thesis
  proof cases
    case answer
    with assms(2) obtain w where "encode m = Inr w" by auto
    with answer len show ?thesis by (auto simp: run_finish)
  next
    case operation
    with assms(2) enc obtain w where "encode m = Inr w" by auto
    with operation len show ?thesis by (auto simp: catch_clauses_def seq_respond run_finish)
  next
    case message
    with assms(2) enc obtain w where "encode m = Inr w" by auto
    with message len show ?thesis by (auto simp: catch_clauses_def seq_respond run_finish)
  qed
qed

lemma run_round_abort:
  assumes "verdict_of r c = Abort e" and "reported r c"
  shows "run ex (case r of Inl e \<Rightarrow> catch_clauses e c | Inr k \<Rightarrow> finish_iteration k c) s = Finished (Inl e, c) s"
  using assms by (cases "(r, c)" rule: verdict_of.cases)
    (auto simp: catch_clauses_def throw_def fail_def oor_def split: if_splits)

lemma size_of_push:
  assumes "decode line' = Inr req" and "get_message_type req = PUSH"
  shows "total_length (m_args req) \<le> MAX_VALUE"
proof -
  obtain a where "m_args req = [a]" using is_valid_args_1 [OF decode_is_valid [OF assms(1)]] assms(2) by auto
  then have "m_args req \<noteq> []" by simp
  with decode_length(2,3) [OF assms(1)] assms(2) show ?thesis by (simp add: MAX_VALUE_def)
qed

text \<open>The outcome of a round that the protocol allows for a request.\<close>

definition follows :: "cid \<Rightarrow> conn \<Rightarrow> kv_state \<times> verdict \<Rightarrow> (bool result \<times> conn, server) run_result \<Rightarrow> bool" where
  "follows i c out res \<longleftrightarrow>
     (case out of
        (\<sigma>, Answer m k) \<Rightarrow> \<exists>c' s' w. res = Finished (Inr k, c') s' \<and> quiet i c' s' \<and> view c' s' = \<sigma> \<and>
          encode m = Inr w \<and> sent c' = sent c @ [w] \<and> m_fdbuf c' = m_fdbuf c \<and> input c' = input c
      | (\<sigma>, Abort e) \<Rightarrow> \<exists>c' s'. res = Finished (Inl e, c') s' \<and> sent c' = sent c)"

lemma round_refines:
  assumes "quiet i c s" and "stack_bound c" and "0 < n" and d: "decode (c_string buf) = Inr req"
    and "\<not> loses_lock req c"
  shows "follows i c (spec_request req (view c s)) (run (exec i) (chat_iteration n buf c) s)"
proof -
  have valid: "is_valid req" by (rule decode_is_valid [OF d])
  have it: "run (exec i) (chat_iteration n buf c) s =
      (case run (exec i) (try_block n buf c) s of Finished x t \<Rightarrow>
         run (exec i) ((\<lambda>(r, c'). case r of Inl e \<Rightarrow> catch_clauses e c' | Inr Continue \<Rightarrow> ret True c'
           | Inr (Proceed k) \<Rightarrow> finish_iteration k c') x) t
       | Waiting \<Rightarrow> Waiting | Faulted \<Rightarrow> Faulted)"
    by (simp add: chat_iteration_def run_bind)
  consider (login) "get_message_type req = LOGIN" | (anonymous) "get_message_type req \<noteq> LOGIN" "\<not> logged_in c"
    | (request) "get_message_type req \<noteq> LOGIN" "logged_in c" by blast
  then show ?thesis
  proof cases
    case login
    have "run (exec i) (try_block n buf c) s =
        Finished (Inr Continue, c\<lparr>logged_in := True, response := mk_message OK [], sent := sent c @ [''OK\<newline>'']\<rparr>) s"
      using assms(3) d valid login
      by (simp add: try_block_def cm_simps seq_def [of return_response_to_client] return_response_to_client_def)
    with login it assms(1) show ?thesis
      by (simp add: follows_def spec_request_def sp_ok_def ret_def quiet_conn view_conn)
  next
    case anonymous
    let ?m = "''User not logged in''"
    obtain w where w: "encode (mk_message ERROR [?m]) = Inr w"
      using encode_one [of ?m ERROR] by (auto simp: MAX_VALUE_def)
    have "run (exec i) (try_block n buf c) s = Finished (Inl (Raise (InvalidMessage ?m)), c) s"
      using assms(3) d valid anonymous by (simp add: try_block_def cm_simps)
    with anonymous it assms(1) w show ?thesis
      by (simp add: follows_def spec_request_def sp_error_def catch_clauses_def seq_respond run_finish
          quiet_conn view_conn)
  next
    case request
    obtain r c' s' where run': "run (exec i) (dispatch req c) s = Finished (r, c') s'" and q': "quiet i c' s'"
      and sp: "spec_op (get_message_type req) (m_args req) (view c s) = (view c' s', verdict_of r c')"
      and rep: "reported r c'" and io: "sent c' = sent c" "m_fdbuf c' = m_fdbuf c" "input c' = input c"
      using dispatch_refines [OF valid assms(1,2,5) size_of_push [OF d] request(1)] by (auto simp: refines_def)
    have "run (exec i) (try_block n buf c) s =
        Finished (case r of Inl e \<Rightarrow> Inl e | Inr k \<Rightarrow> Inr (Proceed k), c') s'"
      using assms(3) d valid request run'
      by (simp add: try_block_def cm_simps seq_def [of "dispatch req"] run_bind split: sum.splits)
    then have fin: "run (exec i) (chat_iteration n buf c) s =
        run (exec i) (case r of Inl e \<Rightarrow> catch_clauses e c' | Inr k \<Rightarrow> finish_iteration k c') s'"
      unfolding it by (simp split: sum.splits)
    have sr: "spec_request req (view c s) = (view c' s', verdict_of r c')"
      using request sp by (simp add: spec_request_def)
    show ?thesis
    proof (cases "verdict_of r c'")
      case (Answer m k)
      with run_round_end [OF Answer rep, of "exec i" s'] show ?thesis
        unfolding fin sr using q' io by (auto simp: follows_def quiet_conn view_conn)
    next
      case (Abort e)
      with run_round_abort [OF Abort rep, of "exec i" s'] show ?thesis
        unfolding fin sr using io(1) by (simp add: follows_def)
    qed
  qed
qed

end
