(* ===== verification/Session.thy ===== *)
theory Session
  imports Refinement
begin

section \<open>A whole session\<close>

text \<open>
  \<open>chat_with_client n\<close> is the loop of that name for at most \<open>n\<close> rounds, by a thread that is
  not interrupted; the result is \<open>Open\<close> when it waits for input or the bound is reached, and
  \<open>Stuck\<close> when it waits for a mutex. \<open>spec_session\<close> is what the protocol says about a list of lines. The theorem
  composes robust I/O, decoding, the handlers and the responses: the byte stream a client sends,
  cut into chunks by the network in any way, is answered line by line as the protocol says.
\<close>

datatype session_end = Open | Closed_by_server | Died failure

datatype chat_result = Chat session_end conn server | Stuck

fun chat_with_client :: "nat \<Rightarrow> cid \<Rightarrow> conn \<Rightarrow> server \<Rightarrow> chat_result" where
  "chat_with_client 0 i c s = Chat Open c s"
| "chat_with_client (Suc n) i c s =
     (case chat_round c of
        None \<Rightarrow> Chat Open c s
      | Some p \<Rightarrow> (case run (exec i) p s of
            Finished (r, c') s' \<Rightarrow>
              (case r of
                 Inr keep_going \<Rightarrow> if keep_going then chat_with_client n i c' s' else Chat Closed_by_server c' s'
               | Inl e \<Rightarrow> Chat (Died e) c' s')
          | Waiting \<Rightarrow> Stuck
          | Faulted \<Rightarrow> Stuck))"

subsection \<open>The protocol on lines\<close>

definition spec_line :: "string \<Rightarrow> kv_state \<Rightarrow> kv_state \<times> verdict" where
  "spec_line l \<sigma> =
     (case decode l of
        Inr req \<Rightarrow> spec_request req \<sigma>
      | Inl (Raise (InvalidMessage m)) \<Rightarrow> sp_error m \<sigma>
      | Inl e \<Rightarrow> (\<sigma>, Abort e))"

definition reply_line :: "Message \<Rightarrow> string" where
  "reply_line m = (case encode m of Inr w \<Rightarrow> w | Inl _ \<Rightarrow> [])"

fun spec_session :: "string list \<Rightarrow> kv_state \<Rightarrow> kv_state \<times> string list \<times> session_end" where
  "spec_session [] \<sigma> = (\<sigma>, [], Open)"
| "spec_session (l # ls) \<sigma> =
     (case spec_line l \<sigma> of
        (\<sigma>', Answer m True) \<Rightarrow>
          (case spec_session ls \<sigma>' of (\<sigma>'', rs, e) \<Rightarrow> (\<sigma>'', reply_line m # rs, e))
      | (\<sigma>', Answer m False) \<Rightarrow> (\<sigma>', [reply_line m], Closed_by_server)
      | (\<sigma>', Abort e) \<Rightarrow> (\<sigma>', [], Died e))"

text \<open>The lines the theorem is about, and the one request it leaves out.\<close>

definition request_line :: "string \<Rightarrow> bool" where
  "request_line l \<longleftrightarrow>
     (\<exists>w. l = w @ ''\<newline>'' \<and> CHR ''\<newline>'' \<notin> set w \<and> CHR 0x00 \<notin> set w \<and> length w < MAX_ENCODED_LEN)"

definition sp_loses_lock :: "string \<Rightarrow> kv_state \<Rightarrow> bool" where
  "sp_loses_lock l \<sigma> \<longleftrightarrow>
     (case decode l of
        Inr req \<Rightarrow> get_message_type req = SET \<and> \<not> sp_transaction \<sigma> \<and> sp_stack \<sigma> = []
      | Inl _ \<Rightarrow> False)"

fun keeps_locks :: "string list \<Rightarrow> kv_state \<Rightarrow> bool" where
  "keeps_locks [] \<sigma> \<longleftrightarrow> True"
| "keeps_locks (l # ls) \<sigma> \<longleftrightarrow> \<not> sp_loses_lock l \<sigma> \<and> keeps_locks ls (fst (spec_line l \<sigma>))"

subsection \<open>The stack grows by at most one value per line\<close>

lemma sp_arithmetic_stack: "length (sp_stack (fst (sp_arithmetic f \<sigma>))) \<le> length (sp_stack \<sigma>)"
  by (auto simp: sp_arithmetic_def sp_ok_def sp_failed_def Let_def split: list.splits sum.splits option.splits)

lemma spec_op_stack: "length (sp_stack (fst (spec_op t as \<sigma>))) \<le> Suc (length (sp_stack \<sigma>))"
  by (cases "(t, as, \<sigma>)" rule: spec_op.cases)
    (auto simp: sp_ok_def sp_failed_def sp_error_def sp_arithmetic_stack le_SucI split: list.splits option.splits)

lemma spec_line_stack: "length (sp_stack (fst (spec_line l \<sigma>))) \<le> Suc (length (sp_stack \<sigma>))"
  using spec_op_stack
  by (auto simp: spec_line_def spec_request_def sp_ok_def sp_error_def split: sum.splits failure.splits exn.splits)

subsection \<open>One line\<close>

lemma c_string_id: "CHR 0x00 \<notin> set l \<Longrightarrow> c_string l = l"
  unfolding c_string_def by (rule takeWhile_eq_all_conv [THEN iffD2]) auto

lemma line_refines:
  assumes "quiet i c s" and "stack_bound c" and "l \<noteq> []" and "CHR 0x00 \<notin> set l"
    and "\<not> sp_loses_lock l (view c s)"
  shows "follows i c (spec_line l (view c s)) (run (exec i) (chat_iteration (int (length l)) l c) s)"
proof (cases "decode l")
  case (Inr req)
  then have "\<not> loses_lock req c" using assms(5) by (simp add: sp_loses_lock_def loses_lock_def)
  with round_refines [OF assms(1,2), of "int (length l)" l req] assms(3) Inr show ?thesis
    by (simp add: c_string_id [OF assms(4)] spec_line_def)
next
  case (Inl e)
  have "run (exec i) (try_block (int (length l)) l c) s = Finished (Inl e, c) s"
    using assms(3) Inl by (simp add: try_block_def c_string_id [OF assms(4)] seq_lift)
  then have fin: "run (exec i) (chat_iteration (int (length l)) l c) s =
      run (exec i) (case (Inl e :: bool result) of Inl e \<Rightarrow> catch_clauses e c | Inr k \<Rightarrow> finish_iteration k c) s"
    by (simp add: chat_iteration_def run_bind)
  from Inl show ?thesis
  proof (cases rule: decode_fail_cases)
    case (invalid m)
    have v: "verdict_of (Inl e) c = Answer (mk_message ERROR [m]) False" "reported (Inl e) c"
      using invalid by simp_all
    from run_round_end [OF v, of "exec i" s] show ?thesis
      unfolding fin using assms(1) Inl invalid
      by (auto simp: follows_def spec_line_def sp_error_def quiet_conn view_conn)
  next
    case past_end
    have v: "verdict_of (Inl e) c = Abort e" "reported (Inl e) c" using past_end by (simp_all add: oor_def)
    from run_round_abort [OF v, of "exec i" s] show ?thesis
      unfolding fin using Inl past_end by (simp add: follows_def spec_line_def oor_def)
  qed
qed

lemma chat_round_line:
  assumes "rio_ok (m_fdbuf c)" and "stream (m_fdbuf c) (input c) = l @ rest" and "request_line l"
  obtains rp ins where "chat_round c = Some (chat_iteration (int (length l)) l (c\<lparr>m_fdbuf := rp, input := ins\<rparr>))"
    "rio_ok rp" "stream rp ins = rest" "avail_end ins = avail_end (input c)"
proof -
  obtain w where w: "l = w @ ''\<newline>''" "CHR ''\<newline>'' \<notin> set w" "length w < MAX_ENCODED_LEN"
    using assms(3) by (auto simp: request_line_def)
  have st: "stream (m_fdbuf c) (input c) = w @ CHR ''\<newline>'' # rest" using assms(2) w(1) by simp
  have len: "length w + 1 < MAX_ENCODED_LEN + 1" using w(3) by simp
  obtain rp ins where "rio_readlineb (m_fdbuf c) (MAX_ENCODED_LEN + 1) (input c) =
      Some (int (length w + 1), w @ ''\<newline>'', rp, ins)" "rio_ok rp" "stream rp ins = rest"
      "avail_end ins = avail_end (input c)"
    by (rule readlineb_line [OF assms(1) st w(2) len])
  with w(1) show thesis by (intro that [of ins rp]) (simp_all add: chat_round_def)
qed

lemma view_io [simp]: "view (c\<lparr>m_fdbuf := rp, input := ins\<rparr>) s = view c s"
  by (simp add: view_def)

lemma quiet_io [simp]: "quiet i (c\<lparr>m_fdbuf := rp, input := ins\<rparr>) s = quiet i c s"
  by (simp add: quiet_def)

text \<open>One line that is all the input: answered, and then the loop waits or has ended.\<close>

lemma serve_line:
  assumes "quiet i c s" and "stack_bound c" and "rio_ok (m_fdbuf c)" and "stream (m_fdbuf c) (input c) = l"
    and "avail_end (input c) = None" and "request_line l" and "\<not> sp_loses_lock l (view c s)"
    and "spec_line l (view c s) = (\<sigma>, Answer m k)"
  shows "\<exists>c' s'. chat_with_client (Suc (Suc n)) i c s = Chat (if k then Open else Closed_by_server) c' s' \<and>
    sent c' = sent c @ [reply_line m] \<and> quiet i c' s' \<and> view c' s' = \<sigma> \<and>
    rio_ok (m_fdbuf c') \<and> stream (m_fdbuf c') (input c') = [] \<and> avail_end (input c') = None"
proof -
  have st: "stream (m_fdbuf c) (input c) = l @ []" using assms(4) by simp
  obtain rp ins where r: "chat_round c = Some (chat_iteration (int (length l)) l (c\<lparr>m_fdbuf := rp, input := ins\<rparr>))"
    and io: "rio_ok rp" "stream rp ins = []" "avail_end ins = None"
    using chat_round_line [OF assms(3) st assms(6)] assms(5) by metis
  let ?c = "c\<lparr>m_fdbuf := rp, input := ins\<rparr>"
  have l: "l \<noteq> []" "CHR 0x00 \<notin> set l" using assms(6) by (auto simp: request_line_def)
  have b: "stack_bound ?c" using assms(2) by (simp add: stack_bound_def)
  have "follows i ?c (\<sigma>, Answer m k) (run (exec i) (chat_iteration (int (length l)) l ?c) s)"
    using line_refines [OF _ b l, of i s] assms(1,7,8) by simp
  then obtain c1 s1 w where 1: "run (exec i) (chat_iteration (int (length l)) l ?c) s = Finished (Inr k, c1) s1"
    "quiet i c1 s1" "view c1 s1 = \<sigma>" "encode m = Inr w" "sent c1 = sent c @ [w]" "m_fdbuf c1 = rp" "input c1 = ins"
    unfolding follows_def by auto
  have "chat_round c1 = None"
    using readlineb_waits [OF io] 1(6,7) by (simp add: chat_round_def MAX_ENCODED_LEN_def)
  with r 1 io show ?thesis by (cases k) (simp_all add: reply_line_def)
qed

subsection \<open>All lines\<close>

lemma session_refines:
  assumes "quiet i c s" and "length (stk (client_stack c)) + length ls < 2 ^ 32"
    and "rio_ok (m_fdbuf c)" and "stream (m_fdbuf c) (input c) = concat ls"
    and "\<forall>l\<in>set ls. request_line l" and "keeps_locks ls (view c s)"
    and "spec_session ls (view c s) = (\<sigma>, rs, e)"
  shows "\<exists>c' s'. chat_with_client (length ls) i c s = Chat e c' s' \<and> sent c' = sent c @ rs \<and>
    ((\<exists>x. e = Died x) \<or> quiet i c' s' \<and> view c' s' = \<sigma>)"
  using assms
proof (induction ls arbitrary: c s rs)
  case Nil
  then show ?case by auto
next
  case (Cons l ls)
  let ?\<sigma> = "view c s"
  obtain rp ins where r: "chat_round c = Some (chat_iteration (int (length l)) l (c\<lparr>m_fdbuf := rp, input := ins\<rparr>))"
    and io: "rio_ok rp" "stream rp ins = concat ls"
    using chat_round_line [OF Cons.prems(3)] Cons.prems(4,5) by (metis concat.simps(2) list.set_intros(1))
  let ?c = "c\<lparr>m_fdbuf := rp, input := ins\<rparr>"
  have l: "l \<noteq> []" "CHR 0x00 \<notin> set l" using Cons.prems(5) by (auto simp: request_line_def)
  have b: "stack_bound ?c" using Cons.prems(2) by (simp add: stack_bound_def)
  have f: "follows i ?c (spec_line l ?\<sigma>) (run (exec i) (chat_iteration (int (length l)) l ?c) s)"
    using line_refines [OF _ b l, of i s] Cons.prems(1,6) by simp
  obtain \<sigma>1 v where sl: "spec_line l ?\<sigma> = (\<sigma>1, v)" by force
  show ?case
  proof (cases v)
    case (Abort x)
    with f sl r Cons.prems(7) show ?thesis by (auto simp: follows_def)
  next
    case (Answer m k)
    with f sl obtain c1 s1 w where 1: "run (exec i) (chat_iteration (int (length l)) l ?c) s = Finished (Inr k, c1) s1"
      "quiet i c1 s1" "view c1 s1 = \<sigma>1" "encode m = Inr w" "sent c1 = sent c @ [w]"
      "m_fdbuf c1 = rp" "input c1 = ins"
      unfolding follows_def by auto
    have w: "reply_line m = w" using 1(4) by (simp add: reply_line_def)
    show ?thesis
    proof (cases k)
      case False
      with 1 sl Answer w r Cons.prems(7) show ?thesis by auto
    next
      case True
      obtain rs' where ss: "spec_session ls \<sigma>1 = (\<sigma>, rs', e)" "rs = w # rs'"
        using Cons.prems(7) sl Answer w True by (auto split: prod.splits)
      have "length (sp_stack \<sigma>1) \<le> Suc (length (sp_stack ?\<sigma>))" using spec_line_stack [of l ?\<sigma>] sl by simp
      then have len: "length (stk (client_stack c1)) + length ls < 2 ^ 32"
        using Cons.prems(2) unfolding 1(3) [symmetric] by simp
      have "\<exists>c' s'. chat_with_client (length ls) i c1 s1 = Chat e c' s' \<and> sent c' = sent c1 @ rs' \<and>
          ((\<exists>x. e = Died x) \<or> quiet i c' s' \<and> view c' s' = \<sigma>)"
        by (rule Cons.IH [OF 1(2) len]) (use 1 io Cons.prems(5,6) sl ss in auto)
      with 1 r True ss show ?thesis by auto
    qed
  qed
qed

subsection \<open>Properties\<close>

lemma quiet_new: "quiet i (ClientConnection raw raw_logged fd arriving) new_server"
proof -
  have "server_inv new_server" by simp
  then show ?thesis
    by (simp add: quiet_def ClientConnection_def ValueStack_def short_stack_def stack_ok_def) (simp add: new_server_def)
qed

text \<open>C1. The server implements its protocol. Take a connection whose thread is not interrupted,
  a client that sends any lines of text of at most 1024 bytes, in any chunks, and that never
  asks for the one request that loses a lock (\<open>SET\<close> outside a transaction with an empty
  stack). Then the loop of \<open>chat_with_client\<close>, through its buffer, decoder, handlers, catch
  clauses and encoder, sends line by line the replies of \<open>spec_session\<close>, stops where it stops,
  and leaves tables, uncommitted changes, stack and flags as it says.\<close>
theorem session_implements_protocol:
  assumes "quiet i c s" and "length (stk (client_stack c)) + length ls < 2 ^ 32"
    and "rio_ok (m_fdbuf c)" and "stream (m_fdbuf c) (input c) = concat ls"
    and "\<forall>l\<in>set ls. request_line l" and "keeps_locks ls (view c s)"
    and "spec_session ls (view c s) = (\<sigma>, rs, e)"
  shows "\<exists>c' s'. chat_with_client (length ls) i c s = Chat e c' s' \<and> sent c' = sent c @ rs \<and>
    ((\<exists>x. e = Died x) \<or> quiet i c' s' \<and> view c' s' = \<sigma>)"
  by (rule session_refines [OF assms])

definition is_request_line :: "string \<Rightarrow> bool" where
  "is_request_line l \<longleftrightarrow> l \<noteq> [] \<and> last l = CHR ''\<newline>'' \<and>
     list_all (\<lambda>ch. ch \<noteq> CHR ''\<newline>'' \<and> ch \<noteq> CHR 0x00) (butlast l) \<and> length l \<le> MAX_ENCODED_LEN"

lemma is_request_line: "is_request_line l \<Longrightarrow> request_line l"
proof -
  assume l: "is_request_line l"
  then have "l = butlast l @ ''\<newline>''" by (metis append_butlast_last_id is_request_line_def)
  moreover have "length (butlast l) < MAX_ENCODED_LEN"
    using l by (cases l rule: rev_cases) (simp_all add: is_request_line_def)
  moreover have "CHR ''\<newline>'' \<notin> set (butlast l)" "CHR 0x00 \<notin> set (butlast l)"
    using l unfolding is_request_line_def list_all_iff by blast+
  ultimately show "request_line l" unfolding request_line_def by blast
qed

lemma request_linesI: "list_all is_request_line ls \<Longrightarrow> \<forall>l\<in>set ls. request_line l"
  by (auto simp: list_all_iff is_request_line)

lemma session_implements_protocol_witness:
  "\<exists>c' s'. chat_with_client 7 1 (ClientConnection \<lparr>rio_fd = 0, rio_cnt = 0, rio_bufptr = 0, rio_buf = []\<rparr> False 4
      [Chunk ''LOGIN bob\<newline>CREATE t\<newline>PUSH 5\<newline>SET t'', Intr, Chunk '' k\<newline>GET t k\<newline>TOP\<newline>BYE\<newline>'']) new_server =
      Chat Closed_by_server c' s' \<and>
    sent c' = [''OK\<newline>'', ''OK\<newline>'', ''OK\<newline>'', ''OK\<newline>'', ''OK\<newline>'', ''DATA 5\<newline>'', ''OK\<newline>'']"
proof -
  let ?c = "ClientConnection \<lparr>rio_fd = 0, rio_cnt = 0, rio_bufptr = 0, rio_buf = []\<rparr> False 4
      [Chunk ''LOGIN bob\<newline>CREATE t\<newline>PUSH 5\<newline>SET t'', Intr, Chunk '' k\<newline>GET t k\<newline>TOP\<newline>BYE\<newline>'']"
  let ?ls = "[''LOGIN bob\<newline>'', ''CREATE t\<newline>'', ''PUSH 5\<newline>'', ''SET t k\<newline>'', ''GET t k\<newline>'', ''TOP\<newline>'', ''BYE\<newline>'']"
  have len: "length (stk (client_stack ?c)) + length ?ls < 2 ^ 32"
    by (simp add: ClientConnection_def ValueStack_def)
  have io: "rio_ok (m_fdbuf ?c)" "stream (m_fdbuf ?c) (input ?c) = concat ?ls" by code_simp+
  have lines: "\<forall>l\<in>set ?ls. request_line l" by (rule request_linesI) code_simp
  have keep: "keeps_locks ?ls (view ?c new_server)" by code_simp
  have out: "snd (spec_session ?ls (view ?c new_server)) =
      ([''OK\<newline>'', ''OK\<newline>'', ''OK\<newline>'', ''OK\<newline>'', ''OK\<newline>'', ''DATA 5\<newline>'', ''OK\<newline>''], Closed_by_server)" by code_simp
  then obtain \<sigma> where spec: "spec_session ?ls (view ?c new_server) =
      (\<sigma>, [''OK\<newline>'', ''OK\<newline>'', ''OK\<newline>'', ''OK\<newline>'', ''OK\<newline>'', ''DATA 5\<newline>'', ''OK\<newline>''], Closed_by_server)"
    by (metis prod.collapse)
  have n: "length ?ls = 7" "sent ?c = []" by (simp_all add: ClientConnection_def)
  show ?thesis
    using session_implements_protocol [OF quiet_new len io lines keep spec, of 1] unfolding n append_Nil by blast
qed

end
