(* ===== verification/Client_Service.thy ===== *)
theory Client_Service
  imports Clients Session
begin

section \<open>What the clients rely on\<close>

text \<open>
  The locale \<open>service\<close> is the interface between a client and whatever its socket leads to: a
  connection can be opened, a line that is a request is answered as the protocol says (theory
  \<open>Key_Value_Spec\<close>), and the connection can be closed. Inside it, the three clients are shown to
  do what they are for. Theory \<open>Network\<close> provides the service with the model of the server.
\<close>

subsection \<open>Messages that can be sent\<close>

definition sendable :: "Message \<Rightarrow> bool" where
  "sendable m \<longleftrightarrow> wire_ok m \<and> list_all (\<lambda>a. CHR 0x00 \<notin> set a) (m_args m)"

lemma plain_text:
  "list_all plain_arg as \<Longrightarrow> list_all (\<lambda>a. CHR 0x00 \<notin> set a) as \<Longrightarrow>
   CHR ''\<newline>'' \<notin> set (encode_args as) \<and> CHR 0x00 \<notin> set (encode_args as)"
  by (induction as) (auto simp: plain_arg_def list_all_iff)

lemma type_text: "CHR ''\<newline>'' \<notin> set (messageTypeToString t) \<and> CHR 0x00 \<notin> set (messageTypeToString t)"
  by (cases t) simp_all

lemma sendable_line:
  assumes "sendable m"
  obtains w where "encode m = Inr w" "decode w = Inr m" "request_line w" "reply_line m = w"
proof -
  let ?t = "messageTypeToString (get_message_type m) @ encode_args (m_args m)"
  have ok: "wire_ok m" using assms by (simp add: sendable_def)
  have "CHR ''\<newline>'' \<notin> set ?t" "CHR 0x00 \<notin> set ?t"
    using plain_text [of "m_args m"] type_text [of "get_message_type m"] assms by (auto simp: sendable_def wire_ok_def)
  moreover have "length ?t < MAX_ENCODED_LEN" using ok by (simp add: wire_ok_def)
  ultimately have "request_line (?t @ ''\<newline>'')" unfolding request_line_def by blast
  with encode_wire_ok [OF ok] decode_wire_ok [OF ok] show thesis by (intro that) (simp_all add: reply_line_def)
qed

lemma line_text: "request_line w \<Longrightarrow> takeWhile (\<lambda>ch. ch \<noteq> CHR 0x00) w = w"
  by (auto simp: request_line_def takeWhile_eq_all_conv)

lemma decode_response_line:
  "request_line w \<Longrightarrow> decode_response w k con = (case decode w of Inl e \<Rightarrow> caught e con | Inr resp \<Rightarrow> k resp con)"
  unfolding decode_response_def by (simp only: line_text)

lemma sendable_none [simp]:
  "sendable (mk_message OK [])" "sendable (mk_message BYE [])" "sendable (mk_message TOP [])"
  "sendable (mk_message BEGIN [])" "sendable (mk_message COMMIT [])" "sendable (mk_message ADD [])"
  "sendable (mk_message PUSH [''1''])"
  by code_simp+

lemma sendable_same_args: "sendable (mk_message GET [tab, key]) \<longleftrightarrow> sendable (mk_message SET [tab, key])"
  by (simp add: sendable_def wire_ok_def is_valid_def valid_number_of_args_def)

subsection \<open>The service\<close>

locale service =
  fixes ex :: "io \<Rightarrow> 's \<Rightarrow> (io_reply, 's) outcome"
    and listening :: "'s \<Rightarrow> string \<Rightarrow> string \<Rightarrow> kv_state \<Rightarrow> bool"
    and talking :: "'s \<Rightarrow> int \<Rightarrow> kv_state \<Rightarrow> bool"
    and hung_up :: "'s \<Rightarrow> int \<Rightarrow> kv_state \<Rightarrow> bool"
    and ended :: "'s \<Rightarrow> kv_state \<Rightarrow> bool"
  assumes opens: "listening s h p \<sigma> \<Longrightarrow> \<exists>fd s'. ex (Open_fd h p) s = Next (Opened fd []) s' \<and> talking s' fd \<sigma>"
    and answers: "talking s fd \<sigma> \<Longrightarrow> request_line w \<Longrightarrow> \<not> sp_loses_lock w \<sigma> \<Longrightarrow> length (sp_stack \<sigma>) < 1000 \<Longrightarrow>
      spec_line w \<sigma> = (\<sigma>', Answer m k) \<Longrightarrow> request_line (reply_line m) \<Longrightarrow>
      \<exists>n s1 s2. ex (Write_fd fd w) s = Next (Count n) s1 \<and>
        ex (Readline_fd fd (MAX_ENCODED_LEN + 1)) s1 = Next (Line (int (length (reply_line m))) (reply_line m)) s2 \<and>
        (if k then talking s2 fd \<sigma>' else hung_up s2 fd \<sigma>')"
    and closes: "hung_up s fd \<sigma> \<Longrightarrow> \<exists>s'. ex (Close_fd fd) s = Next (Count 0) s' \<and> ended s' \<sigma>"
begin

lemma exchange:
  assumes "talking s fd \<sigma>" and "sendable req" and "spec_request req \<sigma> = (\<sigma>', Answer m k)"
    and "get_message_type req = SET \<longrightarrow> sp_transaction \<sigma> \<or> sp_stack \<sigma> \<noteq> []" and "length (sp_stack \<sigma>) < 1000"
    and "request_line (reply_line m)"
  obtains s' where "run ex (send_receive fd req \<kappa> con) s =
      run ex (\<kappa> (int (length (reply_line m))) (reply_line m) con) s'"
    "if k then talking s' fd \<sigma>' else hung_up s' fd \<sigma>'"
proof -
  obtain w where w: "encode req = Inr w" "decode w = Inr req" "request_line w"
    using assms(2) by (rule sendable_line)
  have "spec_line w \<sigma> = (\<sigma>', Answer m k)" "\<not> sp_loses_lock w \<sigma>"
    using w(2) assms(3,4) by (auto simp: spec_line_def sp_loses_lock_def)
  from answers [OF assms(1) w(3) this(2) assms(5) this(1) assms(6)] obtain n s1 s2 where
    x: "ex (Write_fd fd w) s = Next (Count n) s1"
      "ex (Readline_fd fd (MAX_ENCODED_LEN + 1)) s1 = Next (Line (int (length (reply_line m))) (reply_line m)) s2"
      "if k then talking s2 fd \<sigma>' else hung_up s2 fd \<sigma>'"
    by blast
  have "run ex (send_receive fd req \<kappa> con) s = run ex (\<kappa> (int (length (reply_line m))) (reply_line m) con) s2"
    using w(1) x(1,2) by (simp add: send_receive_def del: add_Suc_right One_nat_def)
  from this x(3) show thesis by (rule that [of s2])
qed

lemma exchange_decoded:
  assumes "talking s fd \<sigma>" and "sendable req" and "spec_request req \<sigma> = (\<sigma>', Answer m k)"
    and "get_message_type req = SET \<longrightarrow> sp_transaction \<sigma> \<or> sp_stack \<sigma> \<noteq> []" and "length (sp_stack \<sigma>) < 1000"
    and "sendable m"
  obtains s' where
    "run ex (send_receive fd req (\<lambda>n buf. if n < 0 then bad else decode_response buf \<kappa>) con) s = run ex (\<kappa> m con) s'"
    "if k then talking s' fd \<sigma>' else hung_up s' fd \<sigma>'"
proof -
  obtain w where w: "decode w = Inr m" "request_line w" "reply_line m = w"
    using assms(6) by (rule sendable_line)
  let ?\<kappa> = "\<lambda>n buf. if n < 0 then bad else decode_response buf \<kappa>"
  obtain s' where "run ex (send_receive fd req ?\<kappa> con) s =
      run ex (?\<kappa> (int (length (reply_line m))) (reply_line m) con) s'"
    "if k then talking s' fd \<sigma>' else hung_up s' fd \<sigma>'"
    by (rule exchange [OF assms(1-5), of ?\<kappa> con]) (simp_all add: w(2,3))
  with w(1,3) show thesis by (intro that [of s']) (simp_all add: decode_response_line [OF w(2)])
qed

lemma ask_step:
  assumes "talking s fd \<sigma>" and "sendable req" and "spec_request req \<sigma> = (\<sigma>', Answer m k)"
    and "get_message_type req = SET \<longrightarrow> sp_transaction \<sigma> \<or> sp_stack \<sigma> \<noteq> []" and "length (sp_stack \<sigma>) < 1000"
    and "sendable m" and "get_message_type m = expected"
  obtains s' where "run ex (ask fd req nr expected \<kappa> con) s = run ex (\<kappa> m con) s'"
    "if k then talking s' fd \<sigma>' else hung_up s' fd \<sigma>'"
  unfolding ask_def
  by (rule exchange_decoded [OF assms(1-6), of "complain nr (return_with 1)"
        "\<lambda>resp. if get_message_type resp \<noteq> expected then complain (error_text resp) (return_with 1) else \<kappa> resp" con])
    (use assms(7) that in simp_all)

text \<open>The common case: a request whose answer is \<open>OK\<close>, after which the connection is open.\<close>

lemma ask_ok:
  assumes "talking s fd \<sigma>" and "sendable req" and "spec_request req \<sigma> = sp_ok \<sigma>'"
    and "get_message_type req = SET \<longrightarrow> sp_transaction \<sigma> \<or> sp_stack \<sigma> \<noteq> []" and "length (sp_stack \<sigma>) < 1000"
  obtains s' where "run ex (ask fd req nr OK \<kappa> con) s = run ex (\<kappa> (mk_message OK []) con) s'" "talking s' fd \<sigma>'"
  using ask_step [OF assms(1,2) _ assms(4,5), of \<sigma>' "mk_message OK []" True OK nr \<kappa> con] assms(3) that
  by (auto simp: sp_ok_def)

lemma bye_ends:
  assumes "talking s fd \<sigma>" and "sp_login \<sigma>" and "length (sp_stack \<sigma>) < 1000"
  obtains s' where "run ex (bye_step fd con) s = Finished (Exit 0, con) s'" "ended s' \<sigma>"
proof -
  have spec: "spec_request (mk_message BYE []) \<sigma> = (\<sigma>, Answer (mk_message OK []) False)"
    using assms(2) by (simp add: spec_request_def)
  obtain s1 where s1: "run ex (bye_step fd con) s = run ex (close_client fd con) s1" "hung_up s1 fd \<sigma>"
    unfolding bye_step_def
    by (rule ask_step [OF assms(1) _ spec _ assms(3), where expected = OK]) simp_all
  from closes [OF s1(2)] s1(1) show thesis by (auto simp: close_client_def intro: that)
qed

lemma opened:
  assumes "listening s h p \<sigma>"
  obtains fd s' where "run ex (open_client h p \<kappa> con) s = run ex (\<kappa> fd con) s'" "talking s' fd \<sigma>"
  using opens [OF assms] that by (auto simp: open_client_def)

subsection \<open>The conversations\<close>

lemma set_value_run:
  assumes "listening s h p \<sigma>" and "sp_tables \<sigma> t = Some f" and "\<not> sp_transaction \<sigma>" and "sp_stack \<sigma> = []"
    and "sendable (mk_message LOGIN [u])" and "sendable (mk_message PUSH [v])" and "sendable (mk_message SET [t, k])"
  shows "\<exists>s'. run ex (set_value_main [cmd, h, p, u, t, k, v] con) s = Finished (Exit 0, con) s' \<and>
    ended s' (\<sigma>\<lparr>sp_login := True, sp_stack := [], sp_tables := (sp_tables \<sigma>)(t \<mapsto> f(k := v))\<rparr>)"
proof -
  let ?\<sigma>1 = "\<sigma>\<lparr>sp_login := True\<rparr>" and ?\<sigma>2 = "\<sigma>\<lparr>sp_login := True, sp_stack := [v]\<rparr>"
  let ?\<sigma>3 = "\<sigma>\<lparr>sp_login := True, sp_stack := [], sp_tables := (sp_tables \<sigma>)(t \<mapsto> f(k := v))\<rparr>"
  let ?ok = "mk_message OK []"
  let ?bye = "\<lambda>fd. bye_step fd"
  let ?set = "\<lambda>fd. set_set fd t k (?bye fd)"
  let ?push = "\<lambda>fd resp. set_push fd resp v (?set fd)"
  obtain fd s0 where 0: "run ex (set_value_main [cmd, h, p, u, t, k, v] con) s =
      run ex (set_login fd u (?push fd) con) s0" "talking s0 fd \<sigma>"
    unfolding set_value_main_def
    by (rule opened [OF assms(1), of "\<lambda>fd. set_login fd u (?push fd)" con]) simp
  obtain s1 where 1: "run ex (set_login fd u (?push fd) con) s0 = run ex (?push fd ?ok con) s1" "talking s1 fd ?\<sigma>1"
    unfolding set_login_def
    by (rule ask_ok [OF 0(2) assms(5), of ?\<sigma>1]) (use assms in \<open>simp_all add: spec_request_def\<close>)
  obtain s2 where 2: "run ex (?push fd ?ok con) s1 = run ex (?set fd con) s2" "talking s2 fd ?\<sigma>2"
    unfolding set_push_def
    by (rule ask_ok [OF 1(2) assms(6), of ?\<sigma>2]) (use assms in \<open>simp_all add: spec_request_def\<close>)
  obtain s3 where 3: "run ex (?set fd con) s2 = run ex (?bye fd con) s3" "talking s3 fd ?\<sigma>3"
    unfolding set_set_def
    by (rule ask_ok [OF 2(2) assms(7), of ?\<sigma>3]) (use assms in \<open>simp_all add: spec_request_def\<close>)
  obtain s4 where "run ex (?bye fd con) s3 = Finished (Exit 0, con) s4" "ended s4 ?\<sigma>3"
    by (rule bye_ends [OF 3(2)]) (use assms in simp_all)
  with 0 1 2 3 show ?thesis by auto
qed

text \<open>\<open>get_value\<close> up to its second response.\<close>

lemma get_login_ok:
  assumes "talking s fd \<sigma>" and "sendable (mk_message LOGIN [u])" and "length (sp_stack \<sigma>) < 1000"
  obtains s' where "run ex (get_login fd u \<kappa> con) s = run ex (\<kappa> con) s'" "talking s' fd (\<sigma>\<lparr>sp_login := True\<rparr>)"
proof -
  have spec: "spec_request (mk_message LOGIN [u]) \<sigma> = (\<sigma>\<lparr>sp_login := True\<rparr>, Answer (mk_message OK []) True)"
    by (simp add: spec_request_def sp_ok_def)
  show thesis
    unfolding get_login_def
    by (rule exchange_decoded [OF assms(1,2) spec _ assms(3), where con = con and bad = "complain (Inr ''Failed to read response'') (caught buf_underflow)"
          and \<kappa> = "\<lambda>resp. if get_message_type resp \<noteq> OK then complain (error_text resp) \<kappa> else \<kappa>"])
      (use that in \<open>simp_all add: get_login_def\<close>)
qed

lemma get_get_ok:
  assumes "talking s fd \<sigma>" and "sendable (mk_message GET [t, k])" and "length (sp_stack \<sigma>) < 1000"
    and "sp_login \<sigma>" and "sp_tables \<sigma> t = Some f"
  obtains s' where "run ex (get_get fd t k \<kappa> con) s = run ex (\<kappa> con) s'"
    "talking s' fd (\<sigma>\<lparr>sp_stack := overlay f (sp_changes \<sigma> t) k # sp_stack \<sigma>\<rparr>)"
proof -
  have spec: "spec_request (mk_message GET [t, k]) \<sigma> =
      (\<sigma>\<lparr>sp_stack := overlay f (sp_changes \<sigma> t) k # sp_stack \<sigma>\<rparr>, Answer (mk_message OK []) True)"
    using assms(4,5) by (simp add: spec_request_def sp_ok_def)
  show thesis
    by (rule exchange_decoded [OF assms(1,2) spec _ assms(3), where con = con and bad = "complain (Inr ''Failed to read response'') (caught buf_underflow)"
          and \<kappa> = "\<lambda>resp. if get_message_type resp \<noteq> OK then complain (error_text resp) (return_with 1) else \<kappa>"])
      (use that in \<open>simp_all add: get_get_def\<close>)
qed

lemma get_value_prefix:
  assumes "listening s h p \<sigma>" and "sp_tables \<sigma> t = Some f" and "sp_stack \<sigma> = []"
    and "sp_changes \<sigma> t = Map.empty" and "sendable (mk_message LOGIN [u])" and "sendable (mk_message GET [t, k])"
  obtains fd s' where "run ex (get_value_main [cmd, h, p, u, t, k] con) s = run ex (get_top_step fd (bye_step fd) con) s'"
    "talking s' fd (\<sigma>\<lparr>sp_login := True, sp_stack := [f k]\<rparr>)"
proof -
  let ?get = "\<lambda>fd. get_get fd t k (get_top_step fd (bye_step fd))"
  obtain fd s0 where 0: "run ex (get_value_main [cmd, h, p, u, t, k] con) s = run ex (get_login fd u (?get fd) con) s0"
    "talking s0 fd \<sigma>"
    unfolding get_value_main_def by (rule opened [OF assms(1), of "\<lambda>fd. get_login fd u (?get fd)" con]) simp
  obtain s1 where 1: "run ex (get_login fd u (?get fd) con) s0 = run ex (?get fd con) s1"
    "talking s1 fd (\<sigma>\<lparr>sp_login := True\<rparr>)"
    by (rule get_login_ok [OF 0(2) assms(5)]) (use assms(3) in simp_all)
  obtain s2 where 2: "run ex (?get fd con) s1 = run ex (get_top_step fd (bye_step fd) con) s2"
    "talking s2 fd (\<sigma>\<lparr>sp_login := True, sp_stack := [f k]\<rparr>)"
    by (rule get_get_ok [OF 1(2) assms(6)]) (use assms in \<open>simp_all add: overlay_def\<close>)
  from 0 1 2 show thesis by (intro that) simp_all
qed

lemma get_value_run:
  assumes "listening s h p \<sigma>" and "sp_tables \<sigma> t = Some f" and "sp_stack \<sigma> = []"
    and "sp_changes \<sigma> t = Map.empty" and "sendable (mk_message LOGIN [u])" and "sendable (mk_message GET [t, k])"
    and "sendable (mk_message DATA [f k])"
  shows "\<exists>s'. run ex (get_value_main [cmd, h, p, u, t, k] con) s =
      Finished (Exit 0, con\<lparr>c_out := c_out con @ f k @ ''\<newline>''\<rparr>) s' \<and>
    ended s' (\<sigma>\<lparr>sp_login := True, sp_stack := [f k]\<rparr>)"
proof -
  let ?\<sigma> = "\<sigma>\<lparr>sp_login := True, sp_stack := [f k]\<rparr>"
  let ?con = "con\<lparr>c_out := c_out con @ f k @ ''\<newline>''\<rparr>"
  obtain fd s2 where 2: "run ex (get_value_main [cmd, h, p, u, t, k] con) s = run ex (get_top_step fd (bye_step fd) con) s2"
    "talking s2 fd ?\<sigma>"
    by (rule get_value_prefix [OF assms(1-6)])
  have d: "spec_request (mk_message TOP []) ?\<sigma> = (?\<sigma>, Answer (mk_message DATA [f k]) True)"
    by (simp add: spec_request_def)
  obtain s3 where 3: "run ex (get_top_step fd (bye_step fd) con) s2 = run ex (bye_step fd ?con) s3" "talking s3 fd ?\<sigma>"
    unfolding get_top_step_def
    by (rule ask_step [OF 2(2) _ d _ _ assms(7), where con = con and expected = DATA and nr = "Inr ''Failed to read response''"
          and \<kappa> = "\<lambda>resp. print_line (get_value resp) (bye_step fd)"])
      (simp_all add: print_line_def get_value_def get_arg_def)
  obtain s4 where "run ex (bye_step fd ?con) s3 = Finished (Exit 0, ?con) s4" "ended s4 ?\<sigma>"
    by (rule bye_ends [OF 3(2)]) simp_all
  with 2 3 show ?thesis by auto
qed

text \<open>A key that was never set has the empty value, whose \<open>DATA\<close> response does not decode.\<close>

lemma get_value_unset_run:
  assumes "listening s h p \<sigma>" and "sp_tables \<sigma> t = Some f" and "sp_stack \<sigma> = []"
    and "sp_changes \<sigma> t = Map.empty" and "sendable (mk_message LOGIN [u])" and "sendable (mk_message GET [t, k])"
    and "f k = []"
  shows "\<exists>s'. run ex (get_value_main [cmd, h, p, u, t, k] con) s =
      Finished (Exit 1, con\<lparr>c_err := c_err con @ ''Error: \"Invalid arguments (number and/or format)\"\<newline>''\<rparr>) s'"
proof -
  let ?\<sigma> = "\<sigma>\<lparr>sp_login := True, sp_stack := [f k]\<rparr>"
  obtain fd s2 where 2: "run ex (get_value_main [cmd, h, p, u, t, k] con) s = run ex (get_top_step fd (bye_step fd) con) s2"
    "talking s2 fd ?\<sigma>"
    by (rule get_value_prefix [OF assms(1-6)])
  have d: "spec_request (mk_message TOP []) ?\<sigma> = (?\<sigma>, Answer (mk_message DATA [[]]) True)"
    by (simp add: spec_request_def assms(7))
  have e: "reply_line (mk_message DATA [[]]) = ''DATA \<newline>''" "is_request_line ''DATA \<newline>''"
    "decode ''DATA \<newline>'' = Inl (Raise (InvalidMessage ''\"Invalid arguments (number and/or format)\"''))" by code_simp+
  note line = is_request_line [OF e(2)]
  let ?\<kappa> = "\<lambda>n buf. if n < 0 then complain (Inr ''Failed to read response'') (return_with 1)
    else decode_response buf (\<lambda>resp. if get_message_type resp \<noteq> DATA then complain (error_text resp) (return_with 1)
         else print_line (get_value resp) (bye_step fd))"
  obtain s3 where "run ex (send_receive fd (mk_message TOP []) ?\<kappa> con) s2 =
      run ex (?\<kappa> (int (length (reply_line (mk_message DATA [[]])))) (reply_line (mk_message DATA [[]])) con) s3"
    by (rule exchange [OF 2(2) _ d, of ?\<kappa> con]) (simp_all add: e(1) line)
  then have "run ex (get_top_step fd (bye_step fd) con) s2 =
      Finished (Exit 1, con\<lparr>c_err := c_err con @ ''Error: \"Invalid arguments (number and/or format)\"\<newline>''\<rparr>) s3"
    unfolding get_top_step_def ask_def e(1) by (simp add: e(3) decode_response_line [OF line] caught_def)
  with 2 show ?thesis by auto
qed

text \<open>\<open>incr_value\<close> from its \<open>GET\<close> to its \<open>SET\<close>, in and outside a transaction.\<close>

lemma incr_ok:
  assumes "talking s fd \<sigma>" and "sendable req" and "spec_request req \<sigma> = sp_ok \<sigma>'"
    and "get_message_type req = SET \<longrightarrow> sp_transaction \<sigma> \<or> sp_stack \<sigma> \<noteq> []" and "length (sp_stack \<sigma>) < 1000"
  obtains s' where "run ex (incr_ask fd req \<kappa> con) s = run ex (\<kappa> con) s'" "talking s' fd \<sigma>'"
  unfolding incr_ask_def by (rule ask_ok [OF assms])

lemma incr_middle:
  assumes "talking s fd \<sigma>" and "sp_login \<sigma>" and "sp_tables \<sigma> t = Some f" and "sp_stack \<sigma> = []"
    and "sp_changes \<sigma> t = Map.empty" and "sendable (mk_message GET [t, k])" and "stoi (f k) = Inr x"
  obtains s' where
    "run ex (incr_get fd t k (incr_push fd (incr_add fd (incr_set fd t k \<kappa>))) con) s = run ex (\<kappa> con) s'"
    "talking s' fd (if sp_transaction \<sigma>
       then \<sigma>\<lparr>sp_stack := [], sp_changes := (sp_changes \<sigma>)(t := [k \<mapsto> show_int (1 + x)])\<rparr>
       else \<sigma>\<lparr>sp_stack := [], sp_tables := (sp_tables \<sigma>)(t \<mapsto> f(k := show_int (1 + x)))\<rparr>)"
proof -
  have one: "stoi ''1'' = Inr 1" by code_simp
  have set: "sendable (mk_message SET [t, k])" using assms(6) by (simp add: sendable_same_args)
  obtain s1 where 1: "run ex (incr_get fd t k (incr_push fd (incr_add fd (incr_set fd t k \<kappa>))) con) s =
      run ex (incr_push fd (incr_add fd (incr_set fd t k \<kappa>)) con) s1" "talking s1 fd (\<sigma>\<lparr>sp_stack := [f k]\<rparr>)"
    unfolding incr_get_def
    by (rule incr_ok [OF assms(1,6), of "\<sigma>\<lparr>sp_stack := [f k]\<rparr>"]) (use assms in \<open>simp_all add: spec_request_def overlay_def\<close>)
  obtain s2 where 2: "run ex (incr_push fd (incr_add fd (incr_set fd t k \<kappa>)) con) s1 =
      run ex (incr_add fd (incr_set fd t k \<kappa>) con) s2" "talking s2 fd (\<sigma>\<lparr>sp_stack := [''1'', f k]\<rparr>)"
    unfolding incr_push_def
    by (rule incr_ok [OF 1(2), of "mk_message PUSH [''1'']" "\<sigma>\<lparr>sp_stack := [''1'', f k]\<rparr>"]) (use assms in \<open>simp_all add: spec_request_def\<close>)
  obtain s3 where 3: "run ex (incr_add fd (incr_set fd t k \<kappa>) con) s2 = run ex (incr_set fd t k \<kappa> con) s3"
    "talking s3 fd (\<sigma>\<lparr>sp_stack := [show_int (1 + x)]\<rparr>)"
    unfolding incr_add_def
    by (rule incr_ok [OF 2(2), of "mk_message ADD []" "\<sigma>\<lparr>sp_stack := [show_int (1 + x)]\<rparr>"])
      (use assms one in \<open>simp_all add: spec_request_def sp_arithmetic_def\<close>)
  obtain s4 where 4: "run ex (incr_set fd t k \<kappa> con) s3 = run ex (\<kappa> con) s4"
    "talking s4 fd (if sp_transaction \<sigma>
       then \<sigma>\<lparr>sp_stack := [], sp_changes := (sp_changes \<sigma>)(t := [k \<mapsto> show_int (1 + x)])\<rparr>
       else \<sigma>\<lparr>sp_stack := [], sp_tables := (sp_tables \<sigma>)(t \<mapsto> f(k := show_int (1 + x)))\<rparr>)"
    unfolding incr_set_def
    by (rule incr_ok [OF 3(2) set, of "if sp_transaction \<sigma>
       then \<sigma>\<lparr>sp_stack := [], sp_changes := (sp_changes \<sigma>)(t := [k \<mapsto> show_int (1 + x)])\<rparr>
       else \<sigma>\<lparr>sp_stack := [], sp_tables := (sp_tables \<sigma>)(t \<mapsto> f(k := show_int (1 + x)))\<rparr>"])
      (use assms in \<open>simp_all add: spec_request_def\<close>)
  from 1 2 3 4 show thesis by (intro that) simp_all
qed

lemma incr_value_run:
  assumes "listening s h p \<sigma>" and "sp_tables \<sigma> t = Some f" and "sp_stack \<sigma> = []" and "\<not> sp_transaction \<sigma>"
    and "sp_changes \<sigma> = (\<lambda>_. Map.empty)" and "sendable (mk_message LOGIN [u])" and "sendable (mk_message GET [t, k])"
    and "stoi (f k) = Inr x" and "argv = cmd # (if tr then [''-t''] else []) @ [h, p, u, t, k]"
  shows "\<exists>s'. run ex (incr_value_main argv con) s = Finished (Exit 0, con) s' \<and>
    ended s' (\<sigma>\<lparr>sp_login := True, sp_stack := [], sp_tables := (sp_tables \<sigma>)(t \<mapsto> f(k := show_int (1 + x)))\<rparr>)"
proof -
  let ?v = "show_int (1 + x)"
  let ?\<sigma>1 = "\<sigma>\<lparr>sp_login := True\<rparr>" and ?\<sigma>2 = "\<sigma>\<lparr>sp_login := True, sp_transaction := tr\<rparr>"
  let ?\<sigma>4 = "\<sigma>\<lparr>sp_login := True, sp_stack := [], sp_tables := (sp_tables \<sigma>)(t \<mapsto> f(k := ?v))\<rparr>"
  let ?commit = "\<lambda>fd. incr_commit tr fd (bye_step fd)"
  let ?get = "\<lambda>fd. incr_get fd t k (incr_push fd (incr_add fd (incr_set fd t k (?commit fd))))"
  let ?login = "\<lambda>fd. incr_ask fd (mk_message LOGIN [u]) (incr_begin tr fd (?get fd))"
  have main: "incr_value_main argv = open_client h p ?login"
    by (cases tr) (simp_all add: assms(9) incr_value_main_def incr_run_def)
  obtain fd s0 where 0: "run ex (incr_value_main argv con) s = run ex (?login fd con) s0" "talking s0 fd \<sigma>"
    unfolding main by (rule opened [OF assms(1), of ?login con])
  obtain s1 where 1: "run ex (?login fd con) s0 = run ex (incr_begin tr fd (?get fd) con) s1" "talking s1 fd ?\<sigma>1"
    by (rule incr_ok [OF 0(2) assms(6), of ?\<sigma>1]) (use assms(3) in \<open>simp_all add: spec_request_def\<close>)
  obtain s2 where 2: "run ex (incr_begin tr fd (?get fd) con) s1 = run ex (?get fd con) s2" "talking s2 fd ?\<sigma>2"
  proof (cases tr)
    case True
    show thesis
      by (rule incr_ok [OF 1(2), of "mk_message BEGIN []" ?\<sigma>2 "?get fd" con])
        (use assms(3) that True in \<open>simp_all add: spec_request_def incr_begin_def\<close>)
  next
    case False
    then have "?\<sigma>2 = ?\<sigma>1" using assms(4) by simp
    with False 1(2) show thesis by (intro that [of s1]) (simp_all add: incr_begin_def)
  qed
  obtain s3 where 3: "run ex (?get fd con) s2 = run ex (?commit fd con) s3"
    "talking s3 fd (if tr then ?\<sigma>2\<lparr>sp_stack := [], sp_changes := (\<lambda>_. Map.empty)(t := [k \<mapsto> ?v])\<rparr>
       else ?\<sigma>2\<lparr>sp_stack := [], sp_tables := (sp_tables \<sigma>)(t \<mapsto> f(k := ?v))\<rparr>)"
    by (rule incr_middle [OF 2(2), of t f k x "?commit fd" con]) (use assms in \<open>cases tr; simp\<close>)+
  obtain s4 where 4: "run ex (?commit fd con) s3 = run ex (bye_step fd con) s4" "talking s4 fd ?\<sigma>4"
  proof (cases tr)
    case True
    let ?\<sigma>3 = "?\<sigma>2\<lparr>sp_stack := [], sp_changes := (\<lambda>_. Map.empty)(t := [k \<mapsto> ?v])\<rparr>"
    have "(\<lambda>n. map_option (\<lambda>f. overlay f (sp_changes ?\<sigma>3 n)) (sp_tables ?\<sigma>3 n)) = sp_tables ?\<sigma>4"
      using assms(2) by (auto simp: fun_eq_iff overlay_def option.map_id [unfolded id_def])
    then have c: "spec_request (mk_message COMMIT []) ?\<sigma>3 = sp_ok ?\<sigma>4"
      using assms(4,5) by (cases \<sigma>) (simp add: spec_request_def)
    have "talking s3 fd ?\<sigma>3" using 3(2) True by simp
    then show thesis
      by (rule incr_ok [OF _ _ c, of s3 fd "bye_step fd" con]) (use that True in \<open>simp_all add: incr_commit_def\<close>)
  next
    case False
    then have "?\<sigma>2\<lparr>sp_stack := [], sp_tables := (sp_tables \<sigma>)(t \<mapsto> f(k := ?v))\<rparr> = ?\<sigma>4" using assms(4) by simp
    with False 3(2) show thesis by (intro that [of s3]) (simp_all add: incr_commit_def)
  qed
  obtain s5 where "run ex (bye_step fd con) s4 = Finished (Exit 0, con) s5" "ended s5 ?\<sigma>4"
    by (rule bye_ends [OF 4(2)]) simp_all
  with 0 1 2 3 4 show ?thesis by auto
qed

end

end
