(* ===== verification/Network.thy ===== *)
theory Network
  imports Client_Service
begin

section \<open>Clients and server together\<close>

text \<open>
  The calls of a client (theory \<open>Clients\<close>) on a socket that leads to the modelled server. The
  state has the server's tables, the \<open>ClientConnection\<close> that the accept loop constructs for the
  next connection (with its uninitialised members), the one that serves the client now, and what
  is on its way back to the client. Writing a line lets the server's thread run until it waits
  for input again (theory \<open>Session\<close>); nobody else uses the server in the meantime. Closing the
  socket, like the end of the server's thread, is an end of file for the other side;
  \<open>hangup\<close> is what the client's \<open>read\<close> returns after that.
\<close>

record net =
  address :: "string \<times> string"
  accepted :: conn
  db :: server
  peer :: "conn option"
  alive :: bool
  inbox :: rio_t
  arrived :: "read_event list"
  hangup :: read_event

definition serve :: "cid \<Rightarrow> nat \<Rightarrow> read_event \<Rightarrow> conn \<Rightarrow> net \<Rightarrow> net option" where
  "serve i n ev c N =
     (case chat_with_client n i (c\<lparr>input := input c @ [ev]\<rparr>) (db N) of
        Stuck \<Rightarrow> None
      | Chat e c' s' \<Rightarrow>
          Some (N\<lparr>db := s', peer := Some c', alive := (e = Open),
            arrived := arrived N @ map Chunk (drop (length (sent c)) (sent c')) @ (if e = Open then [] else [hangup N])\<rparr>))"

text \<open>
  A round consumes at least one byte of a line that was written, so \<open>length w + 2\<close> rounds are
  enough to reach the next wait for input. A server thread that waits for a mutex makes the
  client wait (\<open>Blocked\<close>).
\<close>

fun exec_net :: "cid \<Rightarrow> io \<Rightarrow> net \<Rightarrow> (io_reply, net) outcome" where
  "exec_net i (Open_fd h p) N =
     (if address N = (h, p)
      then Next (Opened 3 []) (N\<lparr>peer := Some (accepted N), alive := True, inbox := rio_readinitb (inbox N) 3, arrived := []\<rparr>)
      else Next (Opened (-1) []) N)"
| "exec_net i (Write_fd fd w) N =
     (case peer N of
        None \<Rightarrow> Next (Count (-1)) N
      | Some c \<Rightarrow>
          if fd < 0 \<or> \<not> alive N then Next (Count (-1)) N
          else (case serve i (length w + 2) (Chunk w) c N of
             None \<Rightarrow> Blocked
           | Some N' \<Rightarrow> Next (Count (int (length w))) N'))"
| "exec_net i (Readline_fd fd n) N =
     (if fd < 0 \<or> peer N = None then Next (Line (-1) []) N
      else case rio_readlineb (inbox N) n (arrived N) of
          None \<Rightarrow> Blocked
        | Some (r, buf, rp, ins) \<Rightarrow> Next (Line r buf) (N\<lparr>inbox := rp, arrived := ins\<rparr>))"
| "exec_net i (Close_fd fd) N =
     (case peer N of
        None \<Rightarrow> Next (Count (-1)) N
      | Some c \<Rightarrow>
          if \<not> alive N then Next (Count 0) (N\<lparr>peer := None\<rparr>)
          else (case serve i 1 Eof c N of
             None \<Rightarrow> Blocked
           | Some N' \<Rightarrow> Next (Count 0) (N'\<lparr>peer := None\<rparr>)))"

subsection \<open>The server provides the service\<close>

definition free :: "server \<Rightarrow> bool" where
  "free s \<longleftrightarrow> server_inv s \<and> tables_mutex s = None \<and> (\<forall>t tb. heap s t = Some tb \<longrightarrow> m_mutex tb = None)"

definition tables_of :: "server \<Rightarrow> string \<Rightarrow> (string \<Rightarrow> string) option" where
  "tables_of s n = map_option (\<lambda>t. committed (the (heap s t))) (RBT.lookup (server_tables s) n)"

definition configured :: "string \<times> string \<Rightarrow> conn \<Rightarrow> net \<Rightarrow> bool" where
  "configured a A N \<longleftrightarrow> address N = a \<and> accepted N = A \<and> (\<exists>raw b fd. A = ClientConnection raw b fd [])"

definition net_listening :: "string \<times> string \<Rightarrow> conn \<Rightarrow> net \<Rightarrow> string \<Rightarrow> string \<Rightarrow> kv_state \<Rightarrow> bool" where
  "net_listening a A N h p \<sigma> \<longleftrightarrow> configured a A N \<and> a = (h, p) \<and> free (db N) \<and> \<sigma> = view A (db N)"

definition net_talking :: "cid \<Rightarrow> string \<times> string \<Rightarrow> conn \<Rightarrow> net \<Rightarrow> int \<Rightarrow> kv_state \<Rightarrow> bool" where
  "net_talking i a A N fd \<sigma> \<longleftrightarrow>
     configured a A N \<and> 0 \<le> fd \<and> alive N \<and>
     (\<exists>c. peer N = Some c \<and> quiet i c (db N) \<and> view c (db N) = \<sigma> \<and>
        rio_ok (m_fdbuf c) \<and> stream (m_fdbuf c) (input c) = [] \<and> avail_end (input c) = None) \<and>
     rio_ok (inbox N) \<and> stream (inbox N) (arrived N) = [] \<and> avail_end (arrived N) = None"

definition net_hung_up :: "cid \<Rightarrow> string \<times> string \<Rightarrow> conn \<Rightarrow> net \<Rightarrow> int \<Rightarrow> kv_state \<Rightarrow> bool" where
  "net_hung_up i a A N fd \<sigma> \<longleftrightarrow>
     configured a A N \<and> \<not> alive N \<and> (\<exists>c. peer N = Some c \<and> quiet i c (db N) \<and> view c (db N) = \<sigma>)"

definition net_ended :: "string \<times> string \<Rightarrow> conn \<Rightarrow> net \<Rightarrow> kv_state \<Rightarrow> bool" where
  "net_ended a A N \<sigma> \<longleftrightarrow>
     configured a A N \<and> tables_of (db N) = sp_tables \<sigma> \<and> (\<not> sp_transaction \<sigma> \<longrightarrow> free (db N))"

lemma avail_append: "avail_end es = None \<Longrightarrow> avail (es @ fs) = avail es @ avail fs \<and> avail_end (es @ fs) = avail_end fs"
  by (induction es rule: avail.induct) auto

lemma stream_append:
  assumes "stream rp es = []" and "avail_end es = None"
  shows "stream rp (es @ fs) = avail fs" "avail_end (es @ fs) = avail_end fs"
  using assms avail_append [OF assms(2), of fs] by (simp_all add: stream_def)

lemma free_quiet: "free s \<Longrightarrow> quiet i (ClientConnection raw b fd ins) s"
  by (simp add: quiet_def free_def ClientConnection_def ValueStack_def short_stack_def stack_ok_def)

lemma quiet_free: "quiet i c s \<Longrightarrow> \<not> transaction_mode c \<Longrightarrow> free s"
  by (auto simp: quiet_def free_def)

lemma tables_view: "sp_tables (view c s) = tables_of s"
  by (simp add: fun_eq_iff tables_of_def)

lemma view_new:
  assumes "free s"
  shows "view (ClientConnection raw b fd ins) s =
    \<lparr>sp_tables = tables_of s, sp_changes = (\<lambda>_. Map.empty), sp_stack = [], sp_login = b, sp_transaction = False\<rparr>"
proof -
  have "pending (the (heap s t)) = Map.empty" if "RBT.lookup (server_tables s) n = Some t" for n t
    using assms that by (fastforce simp: free_def server_inv_def)
  then show ?thesis
    by (auto simp: view_def tables_of_def ClientConnection_def ValueStack_def fun_eq_iff split: option.splits)
qed

lemma quiet_input [simp]: "quiet i (c\<lparr>input := x\<rparr>) s = quiet i c s"
  by (simp add: quiet_def)

lemma view_input [simp]: "view (c\<lparr>input := x\<rparr>) s = view c s"
  by (simp add: view_def)

lemma net_opens:
  assumes "net_listening a A N h p \<sigma>"
  shows "\<exists>fd N'. exec_net i (Open_fd h p) N = Next (Opened fd []) N' \<and> net_talking i a A N' fd \<sigma>"
proof -
  obtain raw b fd where A: "A = ClientConnection raw b fd []" using assms by (auto simp: net_listening_def configured_def)
  have io: "rio_ok (m_fdbuf A)" "stream (m_fdbuf A) (input A) = []" "avail_end (input A) = None"
    by (simp_all add: A ClientConnection_def)
  have "quiet i A (db N)" using assms unfolding A by (intro free_quiet) (simp add: net_listening_def)
  with io assms show ?thesis by (auto simp: net_listening_def configured_def net_talking_def)
qed

lemma net_answers:
  assumes "net_talking i a A N fd \<sigma>" and "request_line w" and "\<not> sp_loses_lock w \<sigma>"
    and "length (sp_stack \<sigma>) < 1000" and "spec_line w \<sigma> = (\<sigma>', Answer m k)" and "request_line (reply_line m)"
  shows "\<exists>n N1 N2. exec_net i (Write_fd fd w) N = Next (Count n) N1 \<and>
    exec_net i (Readline_fd fd (MAX_ENCODED_LEN + 1)) N1 =
      Next (Line (int (length (reply_line m))) (reply_line m)) N2 \<and>
    (if k then net_talking i a A N2 fd \<sigma>' else net_hung_up i a A N2 fd \<sigma>')"
proof -
  obtain c where c: "peer N = Some c" "quiet i c (db N)" "view c (db N) = \<sigma>" "rio_ok (m_fdbuf c)"
    "stream (m_fdbuf c) (input c) = []" "avail_end (input c) = None"
    and N: "configured a A N" "0 \<le> fd" "alive N" "rio_ok (inbox N)" "stream (inbox N) (arrived N) = []"
      "avail_end (arrived N) = None"
    using assms(1) unfolding net_talking_def by blast
  let ?c = "c\<lparr>input := input c @ [Chunk w]\<rparr>"
  have st: "stream (m_fdbuf c) (input c @ [Chunk w]) = w" "avail_end (input c @ [Chunk w]) = None"
    using stream_append [OF c(5,6), of "[Chunk w]"] by simp_all
  have b: "stack_bound ?c" using assms(4) c(3) by (auto simp: stack_bound_def)
  obtain c' s' where r: "chat_with_client (length w + 2) i ?c (db N) = Chat (if k then Open else Closed_by_server) c' s'"
    "sent c' = sent c @ [reply_line m]" "quiet i c' s'" "view c' s' = \<sigma>'"
    "rio_ok (m_fdbuf c')" "stream (m_fdbuf c') (input c') = []" "avail_end (input c') = None"
    using serve_line [OF _ b, of i "db N" w \<sigma>' m k "length w"] c st assms(2,3,5) by auto
  let ?tail = "if k then [] else [hangup N]"
  let ?ins = "arrived N @ Chunk (reply_line m) # ?tail"
  define N1 where "N1 = N\<lparr>db := s', peer := Some c', alive := k, arrived := ?ins\<rparr>"
  have w: "exec_net i (Write_fd fd w) N = Next (Count (int (length w))) N1"
    using c(1) N(2,3) r(1,2) by (simp add: serve_def N1_def)
  obtain l where l: "reply_line m = l @ ''\<newline>''" "CHR ''\<newline>'' \<notin> set l" "length l + 1 < MAX_ENCODED_LEN + 1"
    using assms(6) by (auto simp: request_line_def)
  have in_stream: "stream (inbox N) ?ins = l @ CHR ''\<newline>'' # avail ?tail" "avail_end ?ins = avail_end ?tail"
    using stream_append [OF N(5,6), of "Chunk (reply_line m) # ?tail"] l(1) by simp_all
  obtain rp ins where line: "rio_readlineb (inbox N) (MAX_ENCODED_LEN + 1) ?ins =
      Some (int (length l + 1), l @ ''\<newline>'', rp, ins)"
    "rio_ok rp" "stream rp ins = avail ?tail" "avail_end ins = avail_end ?ins"
    by (rule readlineb_line [OF N(4) in_stream(1) l(2,3)])
  let ?N2 = "N1\<lparr>inbox := rp, arrived := ins\<rparr>"
  have "exec_net i (Readline_fd fd (MAX_ENCODED_LEN + 1)) N1 =
      Next (Line (int (length (reply_line m))) (reply_line m)) ?N2"
    using line(1) N(2) l(1) by (simp add: N1_def)
  moreover have "if k then net_talking i a A ?N2 fd \<sigma>' else net_hung_up i a A ?N2 fd \<sigma>'"
    using r(3-7) line(2-4) in_stream(2) N(1,2)
    by (cases k) (auto simp: N1_def net_talking_def net_hung_up_def configured_def)
  ultimately show ?thesis using w by blast
qed

lemma net_closes:
  assumes "net_hung_up i a A N fd \<sigma>"
  shows "\<exists>N'. exec_net i (Close_fd fd) N = Next (Count 0) N' \<and> net_ended a A N' \<sigma>"
proof -
  obtain c where c: "peer N = Some c" "quiet i c (db N)" "view c (db N) = \<sigma>" "\<not> alive N" "configured a A N"
    using assms by (auto simp: net_hung_up_def)
  then have "\<not> sp_transaction \<sigma> \<longrightarrow> free (db N)" using quiet_free [of i c "db N"] by auto
  with c show ?thesis by (auto simp: net_ended_def configured_def tables_view)
qed

interpretation net: service "exec_net i" "net_listening a A" "net_talking i a A" "net_hung_up i a A" "net_ended a A"
  for i a A
  by unfold_locales (blast intro: net_opens net_answers net_closes)+

subsection \<open>The clients against the server\<close>

lemma listening_new:
  assumes "address N = (h, p)" and "accepted N = ClientConnection raw b fd []" and "free (db N)"
  shows "net_listening (h, p) (accepted N) N h p
    \<lparr>sp_tables = tables_of (db N), sp_changes = (\<lambda>_. Map.empty), sp_stack = [], sp_login = b, sp_transaction = False\<rparr>"
  using assms view_new [OF assms(3), of raw b fd "[]"] by (auto simp: net_listening_def configured_def)

lemma set_value_net:
  assumes "address N = (h, p)" and "accepted N = ClientConnection raw b fd []" and "free (db N)"
    and "tables_of (db N) t = Some f"
    and "sendable (mk_message LOGIN [u])" and "sendable (mk_message PUSH [v])" and "sendable (mk_message SET [t, k])"
  shows "\<exists>N'. run (exec_net i) (set_value_main [cmd, h, p, u, t, k, v] con) N = Finished (Exit 0, con) N' \<and>
    free (db N') \<and> tables_of (db N') = (tables_of (db N))(t \<mapsto> f(k := v)) \<and>
    address N' = (h, p) \<and> accepted N' = ClientConnection raw b fd []"
proof -
  have t: "sp_tables \<lparr>sp_tables = tables_of (db N), sp_changes = (\<lambda>_. Map.empty), sp_stack = [],
      sp_login = b, sp_transaction = False\<rparr> t = Some f" using assms(4) by simp
  from net.set_value_run [OF listening_new [OF assms(1-3)] t _ _ assms(5-7), of i cmd con] assms(2)
  show ?thesis by (fastforce simp: net_ended_def configured_def)
qed

lemma get_value_net:
  assumes "address N = (h, p)" and "accepted N = ClientConnection raw b fd []" and "free (db N)"
    and "tables_of (db N) t = Some f"
    and "sendable (mk_message LOGIN [u])" and "sendable (mk_message GET [t, k])" and "sendable (mk_message DATA [f k])"
  shows "\<exists>N'. run (exec_net i) (get_value_main [cmd, h, p, u, t, k] con) N =
      Finished (Exit 0, con\<lparr>c_out := c_out con @ f k @ ''\<newline>''\<rparr>) N' \<and>
    free (db N') \<and> tables_of (db N') = tables_of (db N) \<and>
    address N' = (h, p) \<and> accepted N' = ClientConnection raw b fd []"
proof -
  have t: "sp_tables \<lparr>sp_tables = tables_of (db N), sp_changes = (\<lambda>_. Map.empty), sp_stack = [],
      sp_login = b, sp_transaction = False\<rparr> t = Some f" using assms(4) by simp
  from net.get_value_run [OF listening_new [OF assms(1-3)] t _ _ assms(5-7), of i cmd con] assms(2)
  show ?thesis by (fastforce simp: net_ended_def configured_def)
qed

lemma sendable_value: "sendable (mk_message PUSH [v]) \<longleftrightarrow> sendable (mk_message DATA [v])"
  by (simp add: sendable_def wire_ok_def is_valid_def valid_number_of_args_def)

text \<open>A server with one table and one key in it, for the examples.\<close>

definition one_table :: "string \<Rightarrow> string \<Rightarrow> string \<Rightarrow> net" where
  "one_table n k v =
     \<lparr>address = (''localhost'', ''5000''),
      accepted = ClientConnection \<lparr>rio_fd = 0, rio_cnt = 0, rio_bufptr = 0, rio_buf = []\<rparr> False 4 [],
      db = \<lparr>server_tables = RBT.insert n 0 RBT.empty, tables_mutex = None,
        heap = [0 \<mapsto> (new_table n)\<lparr>theMap := RBT.insert k v RBT.empty\<rparr>], next_addr = 1\<rparr>,
      peer = None, alive = False, inbox = \<lparr>rio_fd = 0, rio_cnt = 0, rio_bufptr = 0, rio_buf = []\<rparr>,
      arrived = [], hangup = Eof\<rparr>"

lemma one_table:
  "address (one_table n k v) = (''localhost'', ''5000'')"
  "accepted (one_table n k v) = ClientConnection \<lparr>rio_fd = 0, rio_cnt = 0, rio_bufptr = 0, rio_buf = []\<rparr> False 4 []"
  "tables_of (db (one_table n k v)) n = Some ((\<lambda>_. [])(k := v))"
  "length v \<le> MAX_VALUE \<Longrightarrow> free (db (one_table n k v))"
proof -
  let ?tb = "(new_table n)\<lparr>theMap := RBT.insert k v RBT.empty\<rparr>"
  have tb: "committed ?tb = (\<lambda>_. [])(k := v)" "pending ?tb = Map.empty"
    by (simp_all add: committed_def pending_def new_table_def fun_eq_iff)
  then show "tables_of (db (one_table n k v)) n = Some ((\<lambda>_. [])(k := v))"
    by (simp add: tables_of_def one_table_def)
  assume "length v \<le> MAX_VALUE"
  with tb have "short_table ?tb" by (simp add: short_table_def)
  with tb(2) show "free (db (one_table n k v))"
    by (auto simp: one_table_def free_def server_inv_def new_table_def split: if_splits)
qed (simp_all add: one_table_def)

subsection \<open>Properties\<close>

text \<open>C14. What \<open>set_value\<close> stores, a later \<open>get_value\<close> prints: both end with status 0, in between
  the table has the new value and nothing else has changed, and the server is left with all its
  mutexes free. The arguments are those whose requests can be written on a line: identifiers,
  and a value of printable bytes without white space or quotes.\<close>
theorem set_then_get:
  assumes "address N = (h, p)" and "accepted N = ClientConnection raw b fd []" and "free (db N)"
    and "tables_of (db N) t = Some f"
    and "sendable (mk_message LOGIN [u])" and "sendable (mk_message PUSH [v])" and "sendable (mk_message SET [t, k])"
  shows "\<exists>N1 N2.
    run (exec_net i) (set_value_main [cmd, h, p, u, t, k, v] con) N = Finished (Exit 0, con) N1 \<and>
    tables_of (db N1) = (tables_of (db N))(t \<mapsto> f(k := v)) \<and>
    run (exec_net j) (get_value_main [cmd', h, p, u, t, k] con) N1 =
      Finished (Exit 0, con\<lparr>c_out := c_out con @ v @ ''\<newline>''\<rparr>) N2 \<and>
    tables_of (db N2) = tables_of (db N1) \<and> free (db N2)"
proof -
  from set_value_net [OF assms, of i cmd con] obtain N1 where
    1: "run (exec_net i) (set_value_main [cmd, h, p, u, t, k, v] con) N = Finished (Exit 0, con) N1"
    "free (db N1)" "tables_of (db N1) = (tables_of (db N))(t \<mapsto> f(k := v))"
    "address N1 = (h, p)" "accepted N1 = ClientConnection raw b fd []" by blast
  have "tables_of (db N1) t = Some (f(k := v))" using 1(3) by simp
  from get_value_net [OF 1(4,5,2) this assms(5), of k j cmd' con] assms(6,7) 1 show ?thesis
    by (auto simp: sendable_same_args sendable_value)
qed

lemma set_then_get_witness:
  "\<exists>N1 N2.
    run (exec_net 1) (set_value_main [''./set_value'', ''localhost'', ''5000'', ''bob'', ''t'', ''k'', ''42''] \<lparr>c_out = [], c_err = []\<rparr>)
      (one_table ''t'' ''j'' ''1'') = Finished (Exit 0, \<lparr>c_out = [], c_err = []\<rparr>) N1 \<and>
    run (exec_net 2) (get_value_main [''./get_value'', ''localhost'', ''5000'', ''bob'', ''t'', ''k''] \<lparr>c_out = [], c_err = []\<rparr>) N1 =
      Finished (Exit 0, \<lparr>c_out = ''42\<newline>'', c_err = []\<rparr>) N2"
proof -
  have ok: "sendable (mk_message LOGIN [''bob''])" "sendable (mk_message PUSH [''42''])" "sendable (mk_message SET [''t'', ''k''])"
    by code_simp+
  have "length ''1'' \<le> MAX_VALUE" by (simp add: MAX_VALUE_def)
  from set_then_get [OF one_table(1,2) one_table(4) [OF this] one_table(3) ok,
      where i = 1 and j = 2 and cmd = "''./set_value''" and cmd' = "''./get_value''" and con = "\<lparr>c_out = [], c_err = []\<rparr>"]
  show ?thesis by (simp del: One_nat_def) metis
qed

text \<open>C15. \<open>incr_value\<close> adds one to the number stored under the key, with and without \<open>-t\<close>, when no
  other client is active: it ends with status 0 and nothing else in the tables changes.\<close>
theorem incr_value_increments:
  assumes "address N = (h, p)" and "accepted N = ClientConnection raw b fd []" and "free (db N)"
    and "tables_of (db N) t = Some f" and "stoi (f k) = Inr x"
    and "sendable (mk_message LOGIN [u])" and "sendable (mk_message GET [t, k])"
    and "argv = cmd # (if tr then [''-t''] else []) @ [h, p, u, t, k]"
  shows "\<exists>N'. run (exec_net i) (incr_value_main argv con) N = Finished (Exit 0, con) N' \<and>
    tables_of (db N') = (tables_of (db N))(t \<mapsto> f(k := show_int (1 + x))) \<and> free (db N')"
proof -
  have t: "sp_tables \<lparr>sp_tables = tables_of (db N), sp_changes = (\<lambda>_. Map.empty), sp_stack = [],
      sp_login = b, sp_transaction = False\<rparr> t = Some f" using assms(4) by simp
  from net.incr_value_run [OF listening_new [OF assms(1-3)] t _ _ _ assms(6,7,5,8), of i con]
  show ?thesis by (fastforce simp: net_ended_def)
qed

lemma incr_value_increments_witness:
  "\<exists>N'. run (exec_net 1) (incr_value_main [''./incr_value'', ''-t'', ''localhost'', ''5000'', ''bob'', ''t'', ''k''] \<lparr>c_out = [], c_err = []\<rparr>)
      (one_table ''t'' ''k'' ''41'') = Finished (Exit 0, \<lparr>c_out = [], c_err = []\<rparr>) N' \<and>
    map_option (\<lambda>f. f ''k'') (tables_of (db N') ''t'') = Some ''42''"
proof -
  have ok: "sendable (mk_message LOGIN [''bob''])" "sendable (mk_message GET [''t'', ''k''])" "stoi ''41'' = Inr 41"
    and v: "show_int (1 + 41) = ''42''" by code_simp+
  have x: "stoi (((\<lambda>_. [])(''k'' := ''41'')) ''k'') = Inr 41" using ok(3) by simp
  have "length ''41'' \<le> MAX_VALUE" by (simp add: MAX_VALUE_def)
  from incr_value_increments [OF one_table(1,2) one_table(4) [OF this] one_table(3) x ok(1,2),
      of "[''./incr_value'', ''-t'', ''localhost'', ''5000'', ''bob'', ''t'', ''k'']" "''./incr_value''" True 1 "\<lparr>c_out = [], c_err = []\<rparr>"]
  show ?thesis unfolding v by (auto simp del: One_nat_def)
qed

text \<open>C26. \<open>get_value\<close> of a key that was never set fails with an error message about the format of
  the message: the server sends the empty value as a \<open>DATA\<close> line without an argument.\<close>
theorem get_value_unset:
  assumes "address N = (h, p)" and "accepted N = ClientConnection raw b fd []" and "free (db N)"
    and "tables_of (db N) t = Some f" and "f k = []"
    and "sendable (mk_message LOGIN [u])" and "sendable (mk_message GET [t, k])"
  shows "\<exists>N'. run (exec_net i) (get_value_main [cmd, h, p, u, t, k] con) N =
    Finished (Exit 1, con\<lparr>c_err := c_err con @ ''Error: \"Invalid arguments (number and/or format)\"\<newline>''\<rparr>) N'"
proof -
  have t: "sp_tables \<lparr>sp_tables = tables_of (db N), sp_changes = (\<lambda>_. Map.empty), sp_stack = [],
      sp_login = b, sp_transaction = False\<rparr> t = Some f" using assms(4) by simp
  from net.get_value_unset_run [OF listening_new [OF assms(1-3)] t _ _ assms(6,7,5), of i cmd con]
  show ?thesis by simp
qed

lemma get_value_unset_witness:
  "\<exists>N'. run (exec_net 1) (get_value_main [''./get_value'', ''localhost'', ''5000'', ''bob'', ''t'', ''k''] \<lparr>c_out = [], c_err = []\<rparr>)
      (one_table ''t'' ''j'' ''1'') = Finished (Exit 1, \<lparr>c_out = [], c_err = ''Error: \"Invalid arguments (number and/or format)\"\<newline>''\<rparr>) N'"
proof -
  have ok: "sendable (mk_message LOGIN [''bob''])" "sendable (mk_message GET [''t'', ''k''])" by code_simp+
  have x: "((\<lambda>_. [])(''j'' := ''1'')) ''k'' = []" by simp
  have "length ''1'' \<le> MAX_VALUE" by (simp add: MAX_VALUE_def)
  from get_value_unset [OF one_table(1,2) one_table(4) [OF this] one_table(3) x ok, of 1 "''./get_value''" "\<lparr>c_out = [], c_err = []\<rparr>"]
  show ?thesis by (simp del: One_nat_def)
qed

text \<open>C25. When nobody listens at the address, \<open>set_value\<close> reports the failed read and returns 1, but
  \<open>get_value\<close> goes on after the same report and writes a zero in front of its buffer.\<close>
theorem unreachable_server:
  assumes "address N \<noteq> (h, p)" and "peer N = None" and "sendable (mk_message LOGIN [u])"
  shows "run (exec_net i) (set_value_main [cmd, h, p, u, t, k, v] con) N =
      Finished (Exit 1, con\<lparr>c_err := c_err con @ ''Error: Failed to read response''\<rparr>) N \<and>
    run (exec_net i) (get_value_main [cmd', h, p, u, t, k] con) N =
      Finished (Stopped (Undefined_behaviour ''write to buf[-1]''),
        con\<lparr>c_err := c_err con @ ''Failed to read response''\<rparr>) N"
proof -
  obtain w where "encode (mk_message LOGIN [u]) = Inr w" by (rule sendable_line [OF assms(3)])
  with assms(1,2) show ?thesis
    by (simp add: set_value_main_def get_value_main_def open_client_def set_login_def ask_def send_receive_def
        get_login_def complain_def return_with_def caught_def buf_underflow_def)
qed

lemma unreachable_server_witness:
  "run (exec_net 1) (get_value_main [''./get_value'', ''nowhere'', ''5000'', ''bob'', ''t'', ''k''] \<lparr>c_out = [], c_err = []\<rparr>)
      (one_table ''t'' ''k'' ''1'') =
    Finished (Stopped (Undefined_behaviour ''write to buf[-1]''), \<lparr>c_out = [], c_err = ''Failed to read response''\<rparr>)
      (one_table ''t'' ''k'' ''1'')"
proof -
  have "sendable (mk_message LOGIN [''bob''])" by code_simp
  from unreachable_server [OF _ _ this, of "one_table ''t'' ''k'' ''1''" "''nowhere''" "''5000''" 1]
  show ?thesis by (simp add: one_table_def)
qed

end
