(* ===== verification/Termination.thy ===== *)
theory Termination
  imports Connection_Safety
begin

section \<open>Every round ends\<close>

text \<open>
  How many atomic actions a round of the loop of \<open>chat_with_client\<close> can perform, whatever the
  shared state answers: the check of theory \<open>Threads\<close> with the number of actions done so far as
  its ghost state. No handler retries or waits actively, so that a round whose locks are free
  ends after a number of actions given by the locks the connection holds at its start.
\<close>

abbreviation counted :: "'a cm \<Rightarrow> conn \<Rightarrow> nat \<Rightarrow> ('a result \<Rightarrow> conn \<Rightarrow> nat \<Rightarrow> bool) \<Rightarrow> bool" where
  "counted \<equiv> cm_safe_by (\<lambda>_ _. True) (\<lambda>_ _ _. True) (\<lambda>_ _ n. Suc n)"

abbreviation counted_prog :: "'a thread_prog \<Rightarrow> nat \<Rightarrow> ('a \<Rightarrow> nat \<Rightarrow> bool) \<Rightarrow> bool" where
  "counted_prog \<equiv> safe_by (\<lambda>_ _. True) (\<lambda>_ _ _. True) (\<lambda>_ _ n. Suc n)"

primrec ends_within :: "'a thread_prog \<Rightarrow> nat \<Rightarrow> bool" where
  "ends_within (Ret x) n \<longleftrightarrow> True"
| "ends_within (Act a k) n \<longleftrightarrow> 0 < n \<and> (\<forall>r. ends_within (k r) (n - 1))"

lemma counted_ends: "counted_prog p n (\<lambda>_ m. m \<le> N) \<Longrightarrow> ends_within p (N - n) \<and> n \<le> N"
proof (induction p arbitrary: n)
  case (Act a k)
  have "ends_within (k r) (N - Suc n) \<and> Suc n \<le> N" for r
    using Act.prems by (intro Act.IH) simp_all
  then have "Suc n \<le> N" "\<forall>r. ends_within (k r) (N - Suc n)" by blast+
  then show ?case by simp
qed simp

subsection \<open>The cost of the operators\<close>

text \<open>
  At most \<open>N\<close> actions and \<open>M\<close> new entries in the set of locked tables; nothing is read from the
  client, and the descriptor stays.
\<close>

abbreviation same_input :: "conn \<Rightarrow> conn \<Rightarrow> bool" where
  "same_input c c' \<equiv> m_client_fd c' = m_client_fd c \<and> m_fdbuf c' = m_fdbuf c \<and> input c' = input c"

definition costs :: "nat \<Rightarrow> nat \<Rightarrow> 'a cm \<Rightarrow> bool" where
  "costs N M m \<longleftrightarrow> (\<forall>c n. counted m c n (\<lambda>_ c' n'. n' \<le> n + N \<and> length (locked_tables c') \<le> length (locked_tables c) + M \<and>
     same_input c c'))"

named_theorems cost \<open>costs of the operators and handlers\<close>

lemma costs_simple [cost]: "costs 0 0 (ret x)" "costs 0 0 (fail e)" "costs 0 0 (throw y)" "costs 0 0 (lift r)"
  "costs 0 0 (respond t as)" "costs 0 0 (stack_push v)" "costs 0 0 (set_transaction_mode b)"
  "costs 0 0 (modify (\<lambda>c. c\<lparr>logged_in := l\<rparr>))"
  by (simp_all add: costs_def wp)

lemma costs_stack [cost]: "costs 0 0 stack_top" "costs 0 0 stack_pop"
  by (simp_all add: costs_def cm_safe_def stack_top_def stack_pop_def lift_def fail_def ret_def split: sum.split)

lemma costs_act [cost]: "costs 1 0 (act a)"
  by (simp add: costs_def wp)

lemma costs_find [cost]: "costs 3 0 (call (find_table nm))"
  by (simp add: costs_def wp find_table_def)

lemma costs_create [cost]: "costs 3 0 (call (create_table nm))"
  by (simp add: costs_def wp create_table_def)

lemma costs_mono:
  assumes "costs N M m" and "N \<le> N'" and "M \<le> M'"
  shows "costs N' M' m"
  unfolding costs_def
proof (intro allI)
  fix c n
  show "counted m c n (\<lambda>_ c' n'. n' \<le> n + N' \<and> length (locked_tables c') \<le> length (locked_tables c) + M' \<and>
      same_input c c')"
    by (rule cm_safe_mono [OF assms(1) [unfolded costs_def, rule_format, of c n]]) (use assms(2,3) in auto)
qed

lemma costs_seq:
  assumes "costs N M m" and "\<And>x. costs N' M' (f x)"
  shows "costs (N + N') (M + M') (seq m f)"
  unfolding costs_def wp_seq
proof (intro allI)
  fix c n
  show "counted m c n (\<lambda>r c' n'. case r of
      Inl e \<Rightarrow> n' \<le> n + (N + N') \<and> length (locked_tables c') \<le> length (locked_tables c) + (M + M') \<and> same_input c c'
    | Inr x \<Rightarrow> counted (f x) c' n' (\<lambda>_ c'' n'. n' \<le> n + (N + N') \<and>
        length (locked_tables c'') \<le> length (locked_tables c) + (M + M') \<and> same_input c c''))"
    by (rule cm_safe_mono [OF assms(1) [unfolded costs_def, rule_format, of c n]])
      (auto split: sum.split elim!: cm_safe_mono intro!: cm_safe_mono [OF assms(2) [unfolded costs_def, rule_format]])
qed

lemma costs_if:
  "costs N M m \<Longrightarrow> costs N' M' m' \<Longrightarrow> costs (max N N') (max M M') (\<lambda>c. if P c then m c else m' c)"
  using costs_mono [of N M m "max N N'" "max M M'"] costs_mono [of N' M' m' "max N N'" "max M M'"]
  by (simp add: costs_def wp)

lemma costs_choice:
  "costs N M m \<Longrightarrow> costs N' M' m' \<Longrightarrow> costs (max N N') (max M M') (if b then m else m')"
  using costs_if [of N M m N' M' m' "\<lambda>_. b"] by (cases b) simp_all

lemma costs_option:
  assumes "costs N M m" and "\<And>x. costs N' M' (f x)"
  shows "costs (max N N') (max M M') (case p of None \<Rightarrow> m | Some x \<Rightarrow> f x)"
  by (cases p) (simp_all add: costs_mono [OF assms(1)] costs_mono [OF assms(2)])

lemma costs_catch:
  "costs N M m \<Longrightarrow>
   costs N M (\<lambda>c. bind_prog (m c) (\<lambda>(r, c'). case r of Inl (Raise e) \<Rightarrow> Ret (Inr None, c') | _ \<Rightarrow> Ret (r, c')))"
  by (simp add: costs_def wp_catch_std)

lemma costs_locking [cost]: "costs 1 1 (handle_table_locking t)"
proof -
  have "length (insort_insert t ts) \<le> Suc (length ts)" for ts :: "tid list"
    by (simp add: insort_insert_key_def)
  then show ?thesis by (simp add: costs_def cm_safe_def handle_table_locking_def cm_simps)
qed

lemma costs_autocommit [cost]: "costs 2 0 (autocommit t)"
  by (simp add: costs_def cm_safe_def autocommit_def cm_simps)

lemma costs_response [cost]: "costs 0 0 return_response_to_client"
  by (simp add: costs_def cm_safe_def return_response_to_client_def cm_simps split: sum.split)

lemmas costs_rules = costs_seq costs_if costs_choice costs_option costs_catch

subsection \<open>The handlers\<close>

lemma costs_handlers [cost]:
  "costs 6 0 (create_request_handler req)" "costs 0 0 (push_request_handler req)"
  "costs 0 0 (pop_request_handler req)" "costs 0 0 (top_request_handler req)"
  "costs 7 1 (get_request_handler req)" "costs 7 1 (set_request_handler req)"
  "costs 0 0 pop_two_values"
  unfolding create_request_handler_def push_request_handler_def pop_request_handler_def [abs_def]
    top_request_handler_def [abs_def] get_request_handler_def set_request_handler_def pop_two_values_def [abs_def]
  by (rule costs_mono, (rule costs_rules cost)+, simp_all)+

lemma costs_pair: "(\<And>x y. costs N M (f x y)) \<Longrightarrow> costs N M (case p of (x, y) \<Rightarrow> f x y)"
  by (simp split: prod.split)

lemma costs_arithmetic [cost]: "costs 0 0 (arithmetic_request_handler req f)"
  unfolding arithmetic_request_handler_def
  by (rule costs_mono, (rule costs_rules costs_pair cost)+, simp_all)

lemma costs_dispatch:
  assumes "m_message_type req \<noteq> COMMIT"
  shows "costs 7 1 (dispatch req)"
proof (cases "m_message_type req")
  case COMMIT
  with assms show ?thesis by simp
qed (simp add: dispatch_def, rule costs_mono, (rule costs_rules cost)+, simp_all)+

lemma counted_each:
  "Q (Inr ()) c (n + 2 * length ts) \<Longrightarrow> counted (rollback_each ts) c n Q"
  "Q (Inr ()) c (n + 2 * length ts) \<Longrightarrow> counted (commit_each ts) c n Q"
  by (induction ts arbitrary: n) (simp_all add: wp)

lemma counted_release_all:
  assumes "Q (Inr ()) (c\<lparr>locked_tables := []\<rparr>) (n + 2 * length (locked_tables c))"
  shows "counted rollback_tables c n Q" "counted commit_tables c n Q"
proof -
  have "counted (seq (rollback_each (locked_tables c)) (\<lambda>_. modify (\<lambda>c. c\<lparr>locked_tables := []\<rparr>))) c n Q"
    "counted (seq (commit_each (locked_tables c)) (\<lambda>_. modify (\<lambda>c. c\<lparr>locked_tables := []\<rparr>))) c n Q"
    unfolding wp_seq by (intro counted_each, simp add: assms wp_modify)+
  then show "counted rollback_tables c n Q" "counted commit_tables c n Q"
    by (simp_all add: cm_safe_def rollback_tables_def commit_tables_def)
qed

subsection \<open>The loop body\<close>

definition round_cost :: "nat \<Rightarrow> conn \<Rightarrow> 'a result \<Rightarrow> conn \<Rightarrow> nat \<Rightarrow> bool" where
  "round_cost N c r c' n' \<longleftrightarrow> n' \<le> N \<and> length (locked_tables c') \<le> Suc (length (locked_tables c)) \<and> same_input c c'"

lemma costs_round:
  assumes "costs N 1 m"
  shows "counted m c 0 (round_cost (N + K) c)"
  by (rule cm_safe_mono [OF assms [unfolded costs_def, rule_format]]) (simp add: round_cost_def)

lemma counted_dispatch: "counted (dispatch req) c 0 (round_cost (7 + 2 * length (locked_tables c)) c)"
proof (cases "m_message_type req = COMMIT")
  case True
  then show ?thesis by (auto simp: dispatch_def wp round_cost_def intro!: counted_release_all)
next
  case False
  then show ?thesis by (intro costs_round costs_dispatch)
qed


lemma counted_try_block: "counted (try_block n buf) c 0 (round_cost (7 + 2 * length (locked_tables c)) c)"
proof -
  have login: "costs 0 0 (seq (modify (\<lambda>c. c\<lparr>logged_in := True\<rparr>)) (\<lambda>_. seq (respond OK []) (\<lambda>_.
          seq return_response_to_client (\<lambda>_. ret Continue))))"
    by (rule costs_mono, (rule costs_rules cost)+) simp_all
  have go: "counted (seq (dispatch req) (\<lambda>k. ret (Proceed k))) c 0 (round_cost (7 + 2 * length (locked_tables c)) c)" for req
    unfolding wp_seq
    by (rule cm_safe_mono [OF counted_dispatch]) (auto simp: wp round_cost_def split: sum.split)
  show ?thesis
    using costs_round [OF costs_mono [OF login], of 0] go
    by (auto simp: try_block_def wp round_cost_def split: sum.split)
qed

lemma counted_catch: "counted (catch_clauses e) c n (\<lambda>_ c' m. m \<le> n + 2 * length (locked_tables c) \<and>
    length (locked_tables c') \<le> length (locked_tables c) \<and> same_input c c')"
proof -
  have reply: "costs 0 0 (seq (respond t [m]) (\<lambda>_. finish_iteration k))" for t m k
    unfolding finish_iteration_def by (rule costs_mono, (rule costs_rules cost)+) simp_all
  have replied: "counted (seq (respond t [m]) (\<lambda>_. finish_iteration k)) c' n' (\<lambda>_ c'' m. m \<le> N \<and>
      length (locked_tables c'') \<le> length (locked_tables c) \<and> same_input c c'')"
    if "n' \<le> N" "length (locked_tables c') \<le> length (locked_tables c)" "same_input c c'" for t m k c' n' N
    by (rule cm_safe_mono [OF reply [unfolded costs_def, rule_format]]) (use that in simp)
  have rollback: "counted (seq rollback_tables (\<lambda>_. seq (set_transaction_mode False) (\<lambda>_.
      seq (respond FAILED [m]) (\<lambda>_. finish_iteration True)))) c n (\<lambda>_ c' m. m \<le> n + 2 * length (locked_tables c) \<and>
    length (locked_tables c') \<le> length (locked_tables c) \<and> same_input c c')" for m
    unfolding wp_seq [of _ _ _ rollback_tables]
    by (rule counted_release_all) (simp add: wp_seq [of _ _ _ "set_transaction_mode b" for b] wp_set_transaction_mode replied)
  from rollback replied show ?thesis
    by (auto simp: cm_safe_def catch_clauses_def throw_def fail_def split: failure.split exn.split)
qed


definition round_result :: "conn \<Rightarrow> 'a \<Rightarrow> conn \<Rightarrow> nat \<Rightarrow> bool" where
  "round_result c r c' m \<longleftrightarrow> m \<le> 9 + 4 * length (locked_tables c) \<and>
     length (locked_tables c') \<le> Suc (length (locked_tables c)) \<and> same_input c c'"

lemma counted_round: "counted (chat_iteration n buf) c 0 (round_result c)"
proof -
  have "counted_prog (try_block n buf c) 0 (\<lambda>x m. counted_prog (case x of (r, c') \<Rightarrow> (case r of
         Inl e \<Rightarrow> catch_clauses e c'
       | Inr Continue \<Rightarrow> ret True c'
       | Inr (Proceed k) \<Rightarrow> finish_iteration k c')) m (\<lambda>(r, c'). round_result c r c'))"
    using counted_try_block [of n buf c] unfolding cm_safe_def
  proof (rule safe_mono, clarify)
    fix r :: "flow result" and c' m
    assume p: "round_cost (7 + 2 * length (locked_tables c)) c r c' m"
    have finish: "counted (finish_iteration k) c' m (round_result c)" for k
    proof -
      have fin: "costs 0 0 (finish_iteration k)"
        unfolding finish_iteration_def by (rule costs_mono, (rule costs_rules cost)+) simp_all
      show ?thesis
        by (rule cm_safe_mono [OF fin [unfolded costs_def, rule_format]]) (use p in \<open>auto simp: round_cost_def round_result_def\<close>)
    qed
    have "counted (catch_clauses e) c' m (round_result c)" for e
      by (rule cm_safe_mono [OF counted_catch]) (use p in \<open>auto simp: round_cost_def round_result_def\<close>)
    moreover have "round_result c (Inr True :: bool result) c' m" using p by (auto simp: round_cost_def round_result_def)
    ultimately show "counted_prog (case r of Inl e \<Rightarrow> catch_clauses e c' | Inr Continue \<Rightarrow> ret True c'
       | Inr (Proceed k) \<Rightarrow> finish_iteration k c') m (\<lambda>(r, c'). round_result c r c')"
      using finish by (auto simp: cm_safe_def ret_def split: sum.split flow.split)
  qed
  then show ?thesis unfolding cm_safe_def chat_iteration_def safe_bind .
qed

subsection \<open>Properties\<close>

text \<open>C13. A round ends: from the line it reads to the response, \<open>chat_with_client\<close> performs at
  most \<open>9 + 4 * n\<close> atomic actions, where \<open>n\<close> is the number of tables the connection has locked
  at the start of the round, whatever the shared state answers to them. No handler retries or
  polls, so a thread whose mutexes are free is back at its read after that many steps.\<close>
theorem round_terminates:
  assumes "chat_round c = Some p"
  shows "ends_within p (9 + 4 * length (locked_tables c))"
proof -
  obtain n buf rp ins where "p = chat_iteration n buf (c\<lparr>m_fdbuf := rp, input := ins\<rparr>)"
    using assms by (auto simp: chat_round_def split: option.splits)
  with counted_round [of n buf "c\<lparr>m_fdbuf := rp, input := ins\<rparr>"]
  have "counted_prog p 0 (\<lambda>_ m. m \<le> 9 + 4 * length (locked_tables c))"
    by (auto simp: cm_safe_def round_result_def elim!: safe_mono)
  from counted_ends [OF this] show ?thesis by simp
qed

lemma round_terminates_witness:
  "\<exists>p. chat_round (ClientConnection \<lparr>rio_fd = 0, rio_cnt = 0, rio_bufptr = 0, rio_buf = []\<rparr> True 4 [Chunk ''SET t k\<newline>'']) = Some p \<and>
     ends_within p 9"
proof -
  let ?c = "ClientConnection \<lparr>rio_fd = 0, rio_cnt = 0, rio_bufptr = 0, rio_buf = []\<rparr> True 4 [Chunk ''SET t k\<newline>'']"
  have "chat_round ?c \<noteq> None" by code_simp
  then obtain p where p: "chat_round ?c = Some p" by blast
  have "locked_tables ?c = []" by (simp add: ClientConnection_def)
  with round_terminates [OF p] p show ?thesis by auto
qed

end
