(* ===== verification/Progress.thy ===== *)
theory Progress
  imports Termination Scenarios
begin

section \<open>The server settles\<close>

text \<open>
  Liveness of the whole process without any assumption on the scheduler. Each thread has a budget,
  given by the bytes its client has sent and by its locked tables, and every step of a thread uses
  up some of it; so all runs of the threads are finite. Where a run cannot be continued, every
  thread has answered all the lines it got or waits for a lock, and what is known about the owner
  of that lock is stated.
\<close>

subsection \<open>What a read consumes\<close>

lemma rio_read_consumes:
  assumes "rio_read rp 1 ins = Some (rc, cs, rp', ins')" and "rio_ok rp" and "0 \<le> rc"
  shows "rio_ok rp' \<and> stream rp ins = cs @ stream rp' ins' \<and> (rc = 1 \<longrightarrow> length cs = 1) \<and> (rc \<noteq> 1 \<longrightarrow> rc = 0 \<and> cs = [])"
proof (cases "stream rp ins")
  case (Cons c cs')
  with assms show ?thesis using rio_read_byte [of rp ins c cs'] by fastforce
next
  case Nil
  from assms(1) obtain rv rp1 ins1 where f: "rio_fill rp ins = Some (rv, rp1, ins1)" and p: "fill_post rp ins rv rp1 ins1"
    using rio_fill_stream [OF assms(2), of ins] by (cases "rio_fill rp ins") (auto simp: rio_read_def)
  have "rv \<noteq> None"
  proof
    assume "rv = None"
    with p have "0 < rio_cnt rp1" "rio_ok rp1" "stream rp1 ins1 = []" using Nil by (auto simp: fill_post_def)
    then show False by (auto simp: stream_def unread_def rio_ok_def)
  qed
  then obtain k where "rv = Some k" by auto
  with p f assms show ?thesis by (auto simp: fill_post_def rio_ok_def rio_read_def)
qed

lemma readline_loop_consumes:
  "\<lbrakk>readline_loop rp maxlen n buf ins = Some (rv, res, rp', ins'); rio_ok rp; 1 \<le> n; 0 \<le> rv\<rbrakk> \<Longrightarrow>
   \<exists>w. res = buf @ w \<and> stream rp ins = w @ stream rp' ins'"
proof (induction rp maxlen n buf ins rule: readline_loop.induct)
  case (1 rp maxlen n buf ins)
  show ?case
  proof (cases "n < maxlen")
    case False
    with "1.prems" show ?thesis by (subst (asm) readline_loop.simps) auto
  next
    case True
    with "1.prems"(1) obtain rc cs rp1 ins1 where r: "rio_read rp 1 ins = Some (rc, cs, rp1, ins1)"
      by (subst (asm) readline_loop.simps) (auto split: option.splits)
    have "0 \<le> rc" using True r "1.prems" by (subst (asm) readline_loop.simps) (auto split: if_splits)
    note one = rio_read_consumes [OF r "1.prems"(2) this]
    show ?thesis
    proof (cases "rc = 1 \<and> hd cs \<noteq> CHR ''\<newline>''")
      case rec: True
      with True r "1.prems"(1) have "readline_loop rp1 maxlen (Suc n) (buf @ [hd cs]) ins1 = Some (rv, res, rp', ins')"
        by (subst (asm) readline_loop.simps) simp
      with "1.IH" [OF True r] rec one "1.prems" have "\<exists>w. res = (buf @ [hd cs]) @ w \<and> stream rp1 ins1 = w @ stream rp' ins'"
        by simp
      then obtain w where "res = (buf @ [hd cs]) @ w" "stream rp1 ins1 = w @ stream rp' ins'" by blast
      with one rec show ?thesis by (cases cs) auto
    next
      case False
      with True r "1.prems" one show ?thesis
        by (subst (asm) readline_loop.simps) (cases cs; auto split: if_splits)
    qed
  qed
qed

lemma readlineb_consumes:
  assumes "rio_readlineb rp maxlen ins = Some (rv, res, rp', ins')" and "rio_ok rp" and "0 < maxlen"
  shows "rio_ok rp' \<and> (0 < rv \<longrightarrow> length (stream rp' ins') < length (stream rp ins))"
  using readlineb_bounds [OF assms] readline_loop_consumes [OF assms(1) [unfolded rio_readlineb_def] assms(2)] by auto

lemma readlineb_None:
  assumes "rio_readlineb rp maxlen ins = None" and "rio_ok rp" and "1 < maxlen"
  shows "CHR ''\<newline>'' \<notin> set (stream rp ins)"
proof
  assume "CHR ''\<newline>'' \<in> set (stream rp ins)"
  then obtain w rest where st: "stream rp ins = w @ CHR ''\<newline>'' # rest" and w: "CHR ''\<newline>'' \<notin> set w"
    by (meson split_list_first)
  show False
  proof (cases "length w + 1 < maxlen")
    case True
    with readlineb_line [OF assms(2) st w] assms(1) show ?thesis by (metis option.distinct(1))
  next
    case False
    have "stream rp ins = take (maxlen - 1) w @ drop (maxlen - 1) w @ CHR ''\<newline>'' # rest" by (simp add: st)
    moreover have "CHR ''\<newline>'' \<notin> set (take (maxlen - 1) w)" using w by (meson in_set_takeD)
    moreover have "Suc (length (take (maxlen - 1) w)) = maxlen" using False assms(3) by simp
    ultimately show ?thesis using readlineb_long [OF assms(2)] assms(1) by (metis option.distinct(1))
  qed
qed

subsection \<open>Budgets\<close>

definition backlog :: "conn \<Rightarrow> string" where
  "backlog c = stream (m_fdbuf c) (input c)"

definition cost_left :: "nat \<Rightarrow> nat \<Rightarrow> nat" where
  "cost_left l k = Suc l * (12 + 4 * k) + 4 * (Suc l * Suc l)"

definition potential :: "conn \<Rightarrow> nat" where
  "potential c = cost_left (length (backlog c)) (length (locked_tables c))"

lemma cost_left_round: "10 + 4 * k + cost_left l (Suc k) < cost_left (Suc l) k"
  by (simp add: cost_left_def algebra_simps)

lemma cost_left_mono: "l \<le> l' \<Longrightarrow> k \<le> k' \<Longrightarrow> cost_left l k \<le> cost_left l' k'"
  unfolding cost_left_def by (intro add_mono mult_le_mono) simp_all

primrec spends :: "(bool result \<times> conn) thread_prog \<Rightarrow> nat \<Rightarrow> bool" where
  "spends (Ret x) n \<longleftrightarrow> 0 < n \<and> (fst x = Inr True \<longrightarrow> rio_ok (m_fdbuf (snd x)) \<and> potential (snd x) < n)"
| "spends (Act a k) n \<longleftrightarrow> 0 < n \<and> (\<forall>r. spends (k r) (n - 1))"

fun budget :: "thread option \<Rightarrow> nat \<Rightarrow> bool" where
  "budget None n \<longleftrightarrow> True"
| "budget (Some (Reading c)) n \<longleftrightarrow> rio_ok (m_fdbuf c) \<and> potential c \<le> n"
| "budget (Some (Working p)) n \<longleftrightarrow> spends p n"
| "budget (Some (Closed c)) n \<longleftrightarrow> True"

lemma counted_spends:
  "counted_prog p n (\<lambda>x m. m \<le> N \<and> rio_ok (m_fdbuf (snd x)) \<and> potential (snd x) \<le> P) \<Longrightarrow>
   n \<le> N \<and> spends p (N - n + P + 1)"
proof (induction p arbitrary: n)
  case (Act a k)
  have step: "Suc n \<le> N \<and> spends (k r) (N - Suc n + P + 1)" for r
    using Act.prems by (intro Act.IH) simp_all
  then have n: "Suc n \<le> N" by blast
  then have "N - n + P + 1 - 1 = N - Suc n + P + 1" by simp
  with step n show ?case by simp
qed auto

text \<open>The end of the input, or an error of \<open>read\<close>, ends the loop.\<close>

lemma round_without_input:
  assumes "n \<le> 0"
  shows "spends (chat_iteration n buf c) 1"
proof -
  have "encode (mk_message ERROR [''Error reading client input'']) = Inr ''ERROR Error reading client input\<newline>''"
    by code_simp
  with assms show ?thesis
    by (simp add: chat_iteration_def try_block_def catch_clauses_def cm_simps finish_iteration_def
        seq_def [of return_response_to_client] return_response_to_client_def)
qed

lemma chat_round_budget:
  assumes "chat_round c = Some p" and "rio_ok (m_fdbuf c)"
  shows "\<exists>m < potential c. spends p m"
proof -
  obtain n buf rp ins where r: "rio_readlineb (m_fdbuf c) (MAX_ENCODED_LEN + 1) (input c) = Some (n, buf, rp, ins)"
    and p: "p = chat_iteration n buf (c\<lparr>m_fdbuf := rp, input := ins\<rparr>)"
    using assms(1) by (auto simp: chat_round_def split: option.splits)
  note con = readlineb_consumes [OF r assms(2)]
  let ?c = "c\<lparr>m_fdbuf := rp, input := ins\<rparr>" and ?k = "length (locked_tables c)"
  show ?thesis
  proof (cases "0 < n")
    case False
    then have "spends p 1" unfolding p by (intro round_without_input) simp
    moreover have "1 < potential c" by (simp add: potential_def cost_left_def)
    ultimately show ?thesis by blast
  next
    case True
    with con obtain l where l: "length (backlog c) = Suc l" "length (backlog ?c) \<le> l"
      by (cases "length (backlog c)") (auto simp: backlog_def)
    have "counted_prog p 0 (\<lambda>x m. m \<le> 9 + 4 * ?k \<and> rio_ok (m_fdbuf (snd x)) \<and> potential (snd x) \<le> cost_left l (Suc ?k))"
      using counted_round [of n buf ?c] con l(2) unfolding p cm_safe_def
      by (elim safe_mono) (auto simp: round_result_def potential_def backlog_def intro!: cost_left_mono)
    from counted_spends [OF this] have "spends p (10 + 4 * ?k + cost_left l (Suc ?k))" by (simp add: add.commute add.left_commute)
    moreover have "10 + 4 * ?k + cost_left l (Suc ?k) < potential c"
      unfolding potential_def l(1) by (rule cost_left_round)
    ultimately show ?thesis by blast
  qed
qed

definition budgets :: "system \<Rightarrow> (cid \<Rightarrow> nat) \<Rightarrow> bool" where
  "budgets s b \<longleftrightarrow> (\<forall>j. budget (threads s j) (b j))"

lemma advance_budget:
  assumes "budgets s b" and "advance i s = Some (e, s')"
  shows "crashed s' \<noteq> None \<or> (\<exists>m < b i. budgets s' (b(i := m)))"
proof -
  from assms(2) consider (read) c p where "threads s i = Some (Reading c)" "chat_round c = Some p"
      "s' = s\<lparr>threads := (threads s)(i \<mapsto> Working p)\<rparr>"
    | (working) p where "threads s i = Some (Working p)" "work i p s = Some (e, s')"
    by (auto simp: advance_def split: option.splits thread.splits)
  then show ?thesis
  proof cases
    case read
    with assms(1) have "rio_ok (m_fdbuf c)" "potential c \<le> b i" by (auto simp: budgets_def dest: spec [of _ i])
    moreover from this chat_round_budget [OF read(2)] obtain m where "m < potential c" "spends p m" by blast
    ultimately have "m < b i" "spends p m" by simp_all
    with assms(1) read(3) show ?thesis by (auto simp: budgets_def)
  next
    case working
    with assms(1) have sp: "spends p (b i)" by (auto simp: budgets_def dest: spec [of _ i])
    show ?thesis
    proof (cases p)
      case (Act a k)
      show ?thesis
      proof (cases "exec i a (shared s)")
        case (Next r sh)
        from sp Act have "b i - 1 < b i" "spends (k r) (b i - 1)" by auto
        with assms(1) working(2) Act Next show ?thesis by (intro disjI2 exI [of _ "b i - 1"]) (auto simp: budgets_def)
      qed (use working(2) Act in auto)
    next
      case (Ret x)
      obtain r c where x: "x = (r, c)" by (cases x) auto
      show ?thesis
      proof (cases r)
        case (Inr g)
        with sp Ret x have "(if g then potential c else 0) < b i" "g \<Longrightarrow> rio_ok (m_fdbuf c)" by auto
        with assms(1) working(2) Ret x Inr show ?thesis
          by (intro disjI2 exI [of _ "if g then potential c else 0"]) (auto simp: budgets_def)
      qed (use working(2) Ret x in auto)
    qed
  qed
qed

text \<open>A schedule is never longer than the budgets of the threads.\<close>

lemma drive_bounded:
  assumes "budgets s b" and "finite A" and "{i. threads s i \<noteq> None} \<subseteq> A" and "drive is s = Some (tr, t)"
  shows "length is \<le> Suc (\<Sum>i\<in>A. b i)"
  using assms
proof (induction "is" arbitrary: s b tr)
  case (Cons i "is")
  then obtain e s' tr' where ad: "advance i s = Some (e, s')" and d: "drive is s' = Some (tr', t)"
    by (auto split: if_splits option.splits)
  show ?case
  proof (cases "crashed s' = None")
    case False
    with d have "is = []" by (cases "is") auto
    then show ?thesis by simp
  next
    case True
    with advance_budget [OF Cons.prems(1) ad] obtain m where m: "m < b i" "budgets s' (b(i := m))" by blast
    have i: "i \<in> A" using ad Cons.prems(3) by (auto simp: advance_def split: option.splits)
    have "{j. threads s' j \<noteq> None} \<subseteq> A"
      using ad Cons.prems(3) i
      by (auto simp: advance_def split: option.splits thread.splits outcome.splits sum.splits if_splits elim!: work.elims)
    from Cons.IH [OF m(2) Cons.prems(2) this d] have "length is \<le> Suc (\<Sum>j\<in>A. (b(i := m)) j)" .
    also have "\<dots> = Suc (m + (\<Sum>j\<in>A - {i}. b j))" using Cons.prems(2) i by (simp add: sum.remove)
    also have "\<dots> \<le> (\<Sum>j\<in>A. b j)" using m(1) Cons.prems(2) i by (simp add: sum.remove [of A i])
    finally show ?thesis by simp
  qed
qed simp

text \<open>Every reachable state that has not crashed has budgets.\<close>

lemma budget_new: "budget (Some (Reading (ClientConnection raw raw_logged fd arriving)))
    (potential (ClientConnection raw raw_logged fd arriving))"
  by (simp add: ClientConnection_def)

lemma step_threads_finite: "step s e s' \<Longrightarrow> finite {i. threads s i \<noteq> None} \<Longrightarrow> finite {i. threads s' i \<noteq> None}"
proof (erule stepE)
  fix i fd create raw_buf raw_logged_in arriving
  assume "finite {i. threads s i \<noteq> None}"
    and s': "s' = server_loop_body fd create i (\<lambda>fd. ClientConnection raw_buf raw_logged_in fd arriving) s"
  then have "finite (insert i {i. threads s i \<noteq> None})" by simp
  moreover have "{i. threads s' i \<noteq> None} \<subseteq> insert i {i. threads s i \<noteq> None}"
    by (auto simp: s' server_loop_body_def log_error_def Let_def split: if_splits)
  ultimately show ?thesis by (rule finite_subset [rotated])
next
  fix i
  assume "finite {i. threads s i \<noteq> None}" and "advance i s = Some (e, s')"
  then have "finite (insert i {i. threads s i \<noteq> None})" by simp
  moreover have "{i. threads s' i \<noteq> None} \<subseteq> insert i {i. threads s i \<noteq> None}"
    using \<open>advance i s = Some (e, s')\<close>
    by (auto simp: advance_def split: option.splits thread.splits outcome.splits sum.splits if_splits elim!: work.elims)
  ultimately show ?thesis by (rule finite_subset [rotated])
next
  fix i
  assume "finite {i. threads s i \<noteq> None}" and "broken_pipe i s = Some s'"
  then show ?thesis by (auto simp: broken_pipe_def split: option.splits thread.splits prog.splits prod.splits sum.splits)
qed

lemma step_budgets:
  assumes "step s e s'" and "budgets s b" and "crashed s' = None"
  shows "\<exists>b'. budgets s' b'"
  using assms(1)
proof (rule stepE)
  fix i fd create raw_buf raw_logged_in arriving
  let ?c = "ClientConnection raw_buf raw_logged_in fd arriving"
  assume "s' = server_loop_body fd create i (\<lambda>fd. ClientConnection raw_buf raw_logged_in fd arriving) s"
  with assms(2) budget_new [of raw_buf raw_logged_in fd arriving]
  have "budgets s' (b(i := potential ?c)) \<or> budgets s' b"
    by (auto simp: server_loop_body_def log_error_def Let_def budgets_def)
  then show ?thesis by blast
next
  fix i
  assume "advance i s = Some (e, s')"
  from advance_budget [OF assms(2) this] assms(3) show ?thesis by blast
next
  fix i
  assume "broken_pipe i s = Some s'"
  with assms(3) show ?thesis
    by (auto simp: broken_pipe_def split: option.splits thread.splits prog.splits prod.splits sum.splits)
qed

lemma path_budgets:
  "path s tr s' \<Longrightarrow> s = boot \<Longrightarrow> finite {i. threads s' i \<noteq> None} \<and> (crashed s' = None \<longrightarrow> (\<exists>b. budgets s' b))"
proof (induction rule: path.induct)
  case (path_refl s)
  then show ?case by (simp add: boot_def budgets_def)
next
  case (path_step s tr s' e s'')
  have "crashed s' = None" using path_step.hyps(2) by (auto elim: stepE)
  with path_step step_threads_finite step_budgets show ?case by metis
qed

subsection \<open>Where a run ends\<close>

definition open_transaction :: "system \<Rightarrow> cid \<Rightarrow> lock_id \<Rightarrow> bool" where
  "open_transaction s i l \<longleftrightarrow>
     (case threads s i of Some (Reading c) \<Rightarrow> transaction_mode c \<and> l \<in> Table_lock ` set (locked_tables c) | _ \<Rightarrow> False)"

definition settled :: "system \<Rightarrow> cid \<Rightarrow> bool" where
  "settled s i \<longleftrightarrow>
     (case threads s i of
        Some (Reading c) \<Rightarrow> CHR ''\<newline>'' \<notin> set (backlog c)
      | Some (Working p) \<Rightarrow> \<exists>l j. waits s i l \<and> owner l (shared s) = Some j \<and> (lost s j l \<or> open_transaction s j l)
      | _ \<Rightarrow> True)"

lemma stuck_waits:
  assumes "sys_inv s" and "threads s i = Some (Working p)" and "advance i s = None"
  shows "\<exists>l. waits s i l \<and> owner l (shared s) \<noteq> None"
proof (cases p)
  case (Ret x)
  with assms show ?thesis by (cases x) (auto simp: advance_def split: sum.splits)
next
  case (Act a k)
  with assms(2) have "next_action s i = Some a" by (simp add: next_action_def)
  moreover have "exec i a (shared s) = Blocked"
    using assms(2,3) Act by (auto simp: advance_def split: outcome.splits)
  ultimately show ?thesis using exec_Blocked [of i a "shared s"] by (auto simp: waits_def)
qed

lemma stuck_settled:
  assumes "sys_inv s" and "\<forall>i. advance i s = None" and "budgets s b"
  shows "settled s i"
proof (cases "threads s i")
  case (Some th)
  show ?thesis
  proof (cases th)
    case (Reading c)
    with Some assms(3) have "rio_ok (m_fdbuf c)" by (auto simp: budgets_def dest: spec [of _ i])
    moreover have "rio_readlineb (m_fdbuf c) (MAX_ENCODED_LEN + 1) (input c) = None"
      using assms(2) [rule_format, of i] Some Reading
      by (auto simp: advance_def chat_round_def split: option.splits)
    ultimately have "CHR ''\<newline>'' \<notin> set (stream (m_fdbuf c) (input c))"
      by (intro readlineb_None) (assumption+, simp add: MAX_ENCODED_LEN_def)
    with Some Reading show ?thesis by (simp add: settled_def backlog_def)
  next
    case (Working p)
    from stuck_waits [OF assms(1)] Some Working assms(2) obtain l j where
      w: "waits s i l" "owner l (shared s) = Some j" by blast
    have tables: "l' \<noteq> Tables_lock" if "owner l' (shared s) = Some k" for l' k
      using tables_owner_advances [OF assms(1)] assms(2) that by auto
    obtain H K D L where h: "tracked j s (H, K, D, L)" by (rule sys_inv_ghost [OF assms(1)])
    have lH: "l \<in> H" using h w(2) by (auto simp: tracked_def agrees_def holds_def)
    have "lost s j l \<or> open_transaction s j l"
    proof (cases "threads s j")
      case None
      with h lH show ?thesis by (simp add: tracked_def)
    next
      case (Some thj)
      show ?thesis
      proof (cases thj)
        case (Reading c)
        show ?thesis
        proof (cases "l \<in> Table_lock ` set (locked_tables c)")
          case True
          moreover have "transaction_mode c"
            using h Some Reading True by (auto simp: tracked_def conn_inv_def)
          ultimately show ?thesis using Some Reading by (simp add: open_transaction_def)
        qed (use idle_lost [OF assms(1) w(2)] Some Reading in blast)
      next
        case (Working q)
        from stuck_waits [OF assms(1)] Some Working assms(2) obtain l' k where
          "waits s j l'" "owner l' (shared s) = Some k" by blast
        moreover from tables [OF this(2)] obtain t where "l' = Table_lock t" by (cases l') auto
        ultimately show ?thesis using waiter_for_table_lost [OF assms(1) _ w(2)] by blast
      qed (use idle_lost [OF assms(1) w(2)] Some in blast)
    qed
    with w Some Working show ?thesis by (auto simp: settled_def)
  qed (use Some in \<open>simp add: settled_def\<close>)
qed (simp add: settled_def)

subsection \<open>Property\<close>



end
