(* ===== verification/Descriptors.thy ===== *)
theory Descriptors
  imports Termination Scenarios
begin

section \<open>The descriptors of the connections\<close>

text \<open>
  Who closes what: a connection's descriptor is opened by \<open>accept\<close>, kept by the
  \<open>ClientConnection\<close> object and closed by its destructor, when the thread ends or could not be
  created. The ownership invariant: the open descriptors are exactly those of the live threads, no two
  threads have the same, and a thread reads from, writes to and closes its own only. So none is leaked,
  closed twice or used after it was closed.
\<close>

subsection \<open>Reading keeps the descriptor\<close>

lemma rio_fill_fd: "rio_fill rp ins = Some (r, rp', ins') \<Longrightarrow> rio_fd rp' = rio_fd rp"
proof (induction rp ins rule: rio_fill.induct)
  case (1 rp ins)
  show ?case
  proof (cases "rio_cnt rp \<le> 0")
    case False
    with "1.prems" show ?thesis by (simp add: rio_fill_full)
  next
    case True
    with "1.prems" obtain n e bs es where sr: "sys_read RIO_BUFSIZE ins = Some (n, e, bs, es)"
      by (subst (asm) rio_fill.simps) (auto split: option.splits)
    note step = rio_fill_step [OF True sr refl]
    have "rio_fd rp' = rio_fd (rp\<lparr>rio_cnt := n, rio_buf := bs @ drop (length bs) (rio_buf rp)\<rparr>)"
      if "rio_fill (rp\<lparr>rio_cnt := n, rio_buf := bs @ drop (length bs) (rio_buf rp)\<rparr>) es = Some (r, rp', ins')"
        "n < 0" e
      using "1.IH"(1) [OF True sr refl refl refl refl] that by simp
    with "1.prems" step show ?thesis by (auto split: if_splits)
  qed
qed

lemma rio_read_fd: "rio_read rp n ins = Some (rc, cs, rp', ins') \<Longrightarrow> rio_fd rp' = rio_fd rp"
  by (auto simp: rio_read_def Let_def split: option.splits prod.splits dest: rio_fill_fd)

lemma readline_loop_fd:
  "readline_loop rp maxlen n buf ins = Some (rv, res, rp', ins') \<Longrightarrow> rio_fd rp' = rio_fd rp"
proof (induction rp maxlen n buf ins rule: readline_loop.induct)
  case (1 rp maxlen n buf ins)
  show ?case
  proof (cases "n < maxlen")
    case False
    with "1.prems" show ?thesis by (subst (asm) readline_loop.simps) auto
  next
    case True
    with "1.prems" obtain rc cs rp1 ins1 where r: "rio_read rp 1 ins = Some (rc, cs, rp1, ins1)"
      by (subst (asm) readline_loop.simps) (auto split: option.splits)
    show ?thesis
    proof (cases "rc = 1 \<and> hd cs \<noteq> CHR ''\<newline>''")
      case rec: True
      with True r "1.prems" have "readline_loop rp1 maxlen (Suc n) (buf @ [hd cs]) ins1 = Some (rv, res, rp', ins')"
        by (subst (asm) readline_loop.simps) simp
      with "1.IH" [OF True r] rec rio_read_fd [OF r] show ?thesis by simp
    next
      case False
      with True r "1.prems" rio_read_fd [OF r] show ?thesis
        by (subst (asm) readline_loop.simps) (auto split: if_splits)
    qed
  qed
qed

subsection \<open>A round keeps the descriptor\<close>

definition conn_on :: "int \<Rightarrow> conn \<Rightarrow> bool" where
  "conn_on fd c \<longleftrightarrow> m_client_fd c = fd \<and> rio_fd (m_fdbuf c) = fd"

primrec prog_on :: "int \<Rightarrow> (bool result \<times> conn) thread_prog \<Rightarrow> bool" where
  "prog_on fd (Ret x) \<longleftrightarrow> conn_on fd (snd x)"
| "prog_on fd (Act a k) \<longleftrightarrow> (\<forall>r. prog_on fd (k r))"

lemma counted_prog_on: "counted_prog p n (\<lambda>x m. conn_on fd (snd x)) \<Longrightarrow> prog_on fd p"
  by (induction p arbitrary: n) auto

lemma chat_round_on:
  assumes "chat_round c = Some p" and "conn_on fd c"
  shows "prog_on fd p"
proof -
  obtain n buf rp ins where r: "rio_readlineb (m_fdbuf c) (MAX_ENCODED_LEN + 1) (input c) = Some (n, buf, rp, ins)"
    and p: "p = chat_iteration n buf (c\<lparr>m_fdbuf := rp, input := ins\<rparr>)"
    using assms(1) by (auto simp: chat_round_def split: option.splits)
  have "rio_fd rp = fd" using readline_loop_fd [OF r [unfolded rio_readlineb_def]] assms(2) by (simp add: conn_on_def)
  then have "counted_prog p 0 (\<lambda>x m. conn_on fd (snd x))"
    using counted_round [of n buf "c\<lparr>m_fdbuf := rp, input := ins\<rparr>"] assms(2) unfolding p cm_safe_def
    by (elim safe_mono) (auto simp: round_result_def conn_on_def)
  then show ?thesis by (rule counted_prog_on)
qed

subsection \<open>The ownership invariant\<close>

fun serves :: "thread option \<Rightarrow> int \<Rightarrow> bool" where
  "serves (Some (Reading c)) fd \<longleftrightarrow> conn_on fd c"
| "serves (Some (Working p)) fd \<longleftrightarrow> prog_on fd p"
| "serves _ fd \<longleftrightarrow> False"

fun is_live :: "thread option \<Rightarrow> bool" where
  "is_live (Some (Closed c)) \<longleftrightarrow> False"
| "is_live None \<longleftrightarrow> False"
| "is_live _ \<longleftrightarrow> True"

definition live :: "system \<Rightarrow> cid set" where
  "live s = {i. is_live (threads s i)}"

definition owned :: "system \<Rightarrow> (cid \<Rightarrow> int) \<Rightarrow> bool" where
  "owned s f \<longleftrightarrow> inj_on f (live s) \<and> open_fds s = f ` live s \<and>
     (\<forall>i\<in>live s. 0 \<le> f i \<and> serves (threads s i) (f i))"

lemma owned_frame:
  assumes "owned s f" and "live s' = live s" and "open_fds s' = open_fds s"
    and "\<And>j. j \<in> live s \<Longrightarrow> serves (threads s j) (f j) \<Longrightarrow> serves (threads s' j) (f j)"
  shows "owned s' f"
  using assms by (simp add: owned_def)

lemma owned_update:
  assumes "owned s f" and "i \<in> live s" and "threads s' = (threads s)(i \<mapsto> th)" and "is_live (Some th)"
    and "serves (Some th) (f i)" and "open_fds s' = open_fds s"
  shows "owned s' f"
proof (rule owned_frame [OF assms(1) _ assms(6)])
  show "live s' = live s" using assms(2-4) by (auto simp: live_def)
qed (use assms(3,5) in auto)

lemma owned_open:
  assumes "owned s f" and "threads s i = None" and "fd \<notin> open_fds s" and "0 \<le> fd" and "conn_on fd c"
    and "threads s' = (threads s)(i \<mapsto> Reading c)" and "open_fds s' = insert fd (open_fds s)"
  shows "owned s' (f(i := fd))"
proof -
  have live: "live s' = insert i (live s)" "i \<notin> live s" using assms(2,6) by (auto simp: live_def)
  have "inj_on (f(i := fd)) (live s')" "open_fds s' = (f(i := fd)) ` live s'"
    using assms(1,3,7) live by (auto simp: owned_def inj_on_def)
  moreover have "0 \<le> (f(i := fd)) j \<and> serves (threads s' j) ((f(i := fd)) j)" if "j \<in> live s'" for j
    using that assms(1,4-6) live by (auto simp: owned_def)
  ultimately show ?thesis by (simp add: owned_def)
qed

lemma owned_close:
  assumes "owned s f" and "i \<in> live s" and "threads s' = (threads s)(i \<mapsto> Closed c)"
    and "open_fds s' = open_fds s - {f i}"
  shows "owned s' f"
proof -
  have live: "live s' = live s - {i}" using assms(3) by (auto simp: live_def)
  then have "inj_on f (live s')" "open_fds s' = f ` live s'"
    using assms(1,2,4) by (auto simp: owned_def inj_on_def)
  moreover have "0 \<le> f j \<and> serves (threads s' j) (f j)" if "j \<in> live s'" for j
    using that assms(1,3) live by (auto simp: owned_def)
  ultimately show ?thesis by (simp add: owned_def)
qed

lemma advance_owned:
  assumes "owned s f" and "advance i s = Some (e, s')"
  shows "owned s' f"
proof -
  from assms(2) consider (read) c p where "threads s i = Some (Reading c)" "chat_round c = Some p"
      "s' = s\<lparr>threads := (threads s)(i \<mapsto> Working p)\<rparr>"
    | (working) p where "threads s i = Some (Working p)" "work i p s = Some (e, s')"
    by (auto simp: advance_def split: option.splits thread.splits)
  then show ?thesis
  proof cases
    case read
    then have i: "i \<in> live s" by (simp add: live_def)
    with assms(1) read(1) have "conn_on (f i) c" by (auto simp: owned_def)
    with chat_round_on [OF read(2)] read(3) show ?thesis by (intro owned_update [OF assms(1) i, where th = "Working p"]) simp_all
  next
    case working
    have i: "i \<in> live s" using working(1) by (simp add: live_def)
    with assms(1) working(1) have on: "prog_on (f i) p" by (auto simp: owned_def)
    show ?thesis
    proof (cases p)
      case (Act a k)
      show ?thesis
      proof (cases "exec i a (shared s)")
        case (Next r sh)
        with working(2) Act on show ?thesis by (intro owned_update [OF assms(1) i]) auto
      qed (use working(2) Act in \<open>auto intro: owned_frame [OF assms(1)] simp: live_def\<close>)
    next
      case (Ret x)
      obtain r c where x: "x = (r, c)" by (cases x) auto
      consider (escape) e' where "r = Inl e'" | (go) "r = Inr True" | (finish) "r = Inr False"
        by (cases r) auto
      then show ?thesis
      proof cases
        case finish
        with working(2) Ret x on show ?thesis
          by (intro owned_close [OF assms(1) i]) (auto simp: destroy_ClientConnection_def conn_on_def)
      next
        case go
        with working(2) Ret x on show ?thesis by (intro owned_update [OF assms(1) i]) auto
      next
        case escape
        with working(2) Ret x show ?thesis by (auto intro: owned_frame [OF assms(1)] simp: live_def)
      qed
    qed
  qed
qed

lemma step_owned:
  assumes "step s e s'" and "owned s f"
  shows "\<exists>f'. owned s' f'"
  using assms(1)
proof (rule stepE)
  fix i fd create raw_buf raw_logged_in arriving
  let ?c = "ClientConnection raw_buf raw_logged_in fd arriving"
  assume a: "s' = server_loop_body fd create i (\<lambda>fd. ClientConnection raw_buf raw_logged_in fd arriving) s"
    "threads s i = None" "fd \<notin> open_fds s"
  have c: "conn_on fd ?c" by (simp add: conn_on_def ClientConnection_def rio_readinitb_def)
  have same: "owned s' f" if "threads s' = threads s" "open_fds s' = open_fds s"
    by (rule owned_frame [OF assms(2)]) (use that in \<open>simp_all add: live_def\<close>)
  consider (failed) "fd < 0" | (unthreaded) "0 \<le> fd" "create \<noteq> 0" | (served) "0 \<le> fd" "create = 0" by linarith
  then show ?thesis
  proof cases
    case failed
    then have "owned s' f" by (intro same) (simp_all add: a server_loop_body_def log_error_def)
    then show ?thesis by blast
  next
    case unthreaded
    with c a(3) have "owned s' f"
      by (intro same)
        (auto simp: a(1) server_loop_body_def log_error_def Let_def destroy_ClientConnection_def conn_on_def)
    then show ?thesis by blast
  next
    case served
    then have "owned s' (f(i := fd))"
      by (intro owned_open [OF assms(2) a(2,3) _ c]) (simp_all add: a(1) server_loop_body_def Let_def)
    then show ?thesis by blast
  qed
next
  fix i assume "advance i s = Some (e, s')"
  then show ?thesis using advance_owned [OF assms(2)] by blast
next
  fix i assume "broken_pipe i s = Some s'"
  then have "owned s' f"
    by (intro owned_frame [OF assms(2)])
      (auto simp: live_def broken_pipe_def split: option.splits thread.splits prog.splits prod.splits sum.splits)
  then show ?thesis by blast
qed

lemma path_owned: "path s tr s' \<Longrightarrow> s = boot \<Longrightarrow> \<exists>f. owned s' f"
proof (induction rule: path.induct)
  case (path_refl s)
  then show ?case by (simp add: boot_def owned_def live_def)
next
  case (path_step s tr s' e s'')
  then show ?case using step_owned by blast
qed

subsection \<open>Property\<close>

text \<open>C12. Every descriptor has one owner. In every reachable state the descriptors of accepted
  connections that are open correspond one to one to the threads that have not ended: a thread
  at its read has its own descriptor in its connection object and in its read buffer, and with
  whatever result the request in progress ends, the connection is left with that descriptor. In
  particular a connection whose thread has ended, or could not be created, leaves none open, and no
  thread reads from, writes to or closes the descriptor of another.\<close>
theorem descriptors_have_one_owner:
  assumes "reachable s"
  shows "\<exists>f. bij_betw f (live s) (open_fds s) \<and> (\<forall>i\<in>live s. 0 \<le> f i \<and>
    (case threads s i of Some (Reading c) \<Rightarrow> m_client_fd c = f i \<and> rio_fd (m_fdbuf c) = f i
     | Some (Working p) \<Rightarrow> prog_on (f i) p
     | _ \<Rightarrow> False))"
proof -
  obtain f where f: "owned s f" using path_owned assms unfolding reachable_def by blast
  have "case threads s i of Some (Reading c) \<Rightarrow> m_client_fd c = f i \<and> rio_fd (m_fdbuf c) = f i
     | Some (Working p) \<Rightarrow> prog_on (f i) p | _ \<Rightarrow> False" if "i \<in> live s" for i
  proof -
    have "serves (threads s i) (f i)" using f that by (simp add: owned_def)
    then show ?thesis by (cases "(threads s i, f i)" rule: serves.cases) (auto simp: conn_on_def)
  qed
  with f show ?thesis by (auto simp: owned_def bij_betw_def)
qed

lemma descriptors_have_one_owner_witness:
  "\<exists>s f. reachable s \<and> live s = {2} \<and> bij_betw f (live s) (open_fds s) \<and> open_fds s = {6}"
proof -
  let ?s = "connect 2 ''POP\<newline>'' (connect 1 ''BYE\<newline>'' boot)"
  have "case drive (replicate 2 1) ?s of None \<Rightarrow> False
    | Some (tr, t) \<Rightarrow> (\<not> is_live (threads t 1)) \<and> (case threads t 2 of Some (Reading c) \<Rightarrow> m_client_fd c = 6 | _ \<Rightarrow> False)"
    by code_simp
  then obtain tr t where d: "drive (replicate 2 1) ?s = Some (tr, t)"
    and q: "\<not> is_live (threads t 1)" "case threads t 2 of Some (Reading c) \<Rightarrow> m_client_fd c = 6 | _ \<Rightarrow> False"
    by (cases "drive (replicate 2 1) ?s") auto
  have none: "threads t i = None" if "i \<noteq> 1" "i \<noteq> 2" for i
    by (rule drive_no_thread [OF d]) (use that in \<open>simp add: connect_def server_loop_body_def Let_def boot_def\<close>)
  from q(2) obtain c where c: "threads t 2 = Some (Reading c)" "m_client_fd c = 6"
    by (auto split: option.splits thread.splits)
  have live: "live t = {2}" using none q(1) c(1) by (auto simp: live_def) (metis is_live.simps(2))
  have t: "reachable t" by (rule reachable_drive [OF reachable_two d]) simp
  from descriptors_have_one_owner [OF t] obtain f where f: "bij_betw f (live t) (open_fds t)" "f 2 = 6"
    using live c by auto
  then have "open_fds t = {6}" using live by (auto simp: bij_betw_def)
  with t live f show ?thesis by blast
qed

end
