(* ===== verification/Csapp_Io.thy ===== *)
theory Csapp_Io
  imports Rio
begin

section \<open>Reading blocks, and the wrappers that end the process\<close>

text \<open>
  The other robust I/O functions of \<open>csapp.c\<close>: \<open>rio_readn\<close> and \<open>rio_readnb\<close>, which read
  \<open>n\<close> bytes without and with the buffer, and the \<open>Rio_\<close> wrappers, which report an error and end
  the process. The error functions end it with status 0, although something went wrong.
\<close>

subsection \<open>Error functions\<close>

text \<open>A call returns, or the process ends with a status after printing on its error stream.\<close>

datatype 'a call = Returned 'a | Exited int string

definition unix_error :: "string \<Rightarrow> string \<Rightarrow> 'a call" where
  "unix_error msg strerror = Exited 0 (msg @ '': '' @ strerror @ ''\<newline>'')"

definition posix_error :: "(int \<Rightarrow> string) \<Rightarrow> int \<Rightarrow> string \<Rightarrow> 'a call" where
  "posix_error strerror code msg = Exited 0 (msg @ '': '' @ strerror code @ ''\<newline>'')"

definition gai_error :: "(int \<Rightarrow> string) \<Rightarrow> int \<Rightarrow> string \<Rightarrow> 'a call" where
  "gai_error gai_strerror code msg = Exited 0 (msg @ '': '' @ gai_strerror code @ ''\<newline>'')"

definition app_error :: "string \<Rightarrow> 'a call" where
  "app_error msg = Exited 0 (msg @ ''\<newline>'')"

definition dns_error :: "string \<Rightarrow> 'a call" where
  "dns_error msg = Exited 0 (msg @ ''\<newline>'')"

subsection \<open>Blocks\<close>

function readn_loop :: "nat \<Rightarrow> nat \<Rightarrow> string \<Rightarrow> read_event list \<Rightarrow> (int \<times> string \<times> read_event list) option" where
  "readn_loop n nleft buf ins =
     (if nleft > 0
      then case sys_read nleft ins of
          None \<Rightarrow> None
        | Some (nread, eintr, bs, ins') \<Rightarrow>
            if nread < 0 then (if eintr then readn_loop n nleft buf ins' else Some (-1, buf, ins'))
            else if nread = 0 then Some (int (n - nleft), buf, ins')
            else readn_loop n (nleft - nat nread) (buf @ bs) ins'
      else Some (int (n - nleft), buf, ins))"
  by pat_completeness auto
termination
  by (relation "measure (\<lambda>(n, nleft, buf, ins). length ins + nleft)") (fastforce dest: sys_read_shorter)+

declare readn_loop.simps [simp del]

definition rio_readn :: "nat \<Rightarrow> read_event list \<Rightarrow> (int \<times> string \<times> read_event list) option" where
  "rio_readn n ins = readn_loop n n [] ins"

text \<open>The post-condition of one call of \<open>rio_read\<close>.\<close>

definition read_post :: "nat \<Rightarrow> rio_t \<Rightarrow> read_event list \<Rightarrow> int \<Rightarrow> string \<Rightarrow> rio_t \<Rightarrow> read_event list \<Rightarrow> bool" where
  "read_post n rp ins rc bs rp' ins' \<longleftrightarrow>
     rio_ok rp' \<and>
     (if rc < 0 then rc = -1
      else if rc = 0 then stream rp ins = [] \<and> stream rp' ins' = [] \<and> avail_end ins = Some Eof \<and> avail_end ins' = Some Eof
      else rc = int (length bs) \<and> length bs \<le> n \<and> stream rp ins = bs @ stream rp' ins' \<and> avail_end ins' = avail_end ins)"

lemma rio_read_bytes:
  assumes "rio_read rp n ins = Some (rc, bs, rp', ins')" and "rio_ok rp" and "0 < n"
  shows "read_post n rp ins rc bs rp' ins'"
proof -
  obtain ret rp1 ins1 where f: "rio_fill rp ins = Some (ret, rp1, ins1)" and p: "fill_post rp ins ret rp1 ins1"
    using rio_fill_stream [OF assms(2), of ins] assms(1) by (cases "rio_fill rp ins") (auto simp: rio_read_def)
  show ?thesis
  proof (cases ret)
    case (Some r)
    with f assms(1) have "rc = r" "rp' = rp1" "ins' = ins1" by (auto simp: rio_read_def)
    with p Some show ?thesis by (auto simp: fill_post_def read_post_def rio_ok_def)
  next
    case None
    define K where "K = nat (rio_cnt rp1)"
    define k where "k = min K n"
    from p None have post: "0 < K" "rio_ok rp1" "stream rp1 ins1 = stream rp ins" "avail_end ins1 = avail_end ins"
      by (auto simp: fill_post_def K_def)
    have kK: "rio_cnt rp1 = int K" "0 < k" "k \<le> K" "k \<le> n" using post(1) assms(3) by (auto simp: K_def k_def)
    have len: "rio_bufptr rp1 + K \<le> length (rio_buf rp1)" using post(1,2) by (simp add: rio_ok_def K_def)
    have r: "rc = int k" "bs = take k (drop (rio_bufptr rp1) (rio_buf rp1))" "ins' = ins1"
      "rp' = rp1\<lparr>rio_bufptr := rio_bufptr rp1 + k, rio_cnt := int (K - k)\<rparr>"
      using f None assms(1) kK by (auto simp: rio_read_def Let_def k_def min_def of_nat_diff split: if_splits)
    have "take K (drop (rio_bufptr rp1) (rio_buf rp1)) = bs @ take (K - k) (drop (rio_bufptr rp1 + k) (rio_buf rp1))"
      using kK(3) take_add [of k "K - k" "drop (rio_bufptr rp1) (rio_buf rp1)"] by (simp add: r(2) add.commute)
    then have "stream rp ins = bs @ stream rp' ins'"
      using post(3) by (simp add: stream_def unread_def r(3,4) kK(1))
    moreover have "length bs = k" using len kK(3) by (simp add: r(2))
    moreover have "nat (int K - int k) = K - k" by simp
    ultimately show ?thesis using r kK post(4) len by (simp add: read_post_def rio_ok_def)
  qed
qed

function readnb_loop ::
  "nat \<Rightarrow> nat \<Rightarrow> string \<Rightarrow> rio_t \<Rightarrow> read_event list \<Rightarrow> (int \<times> string \<times> rio_t \<times> read_event list) option" where
  "readnb_loop n nleft buf rp ins =
     (if nleft > 0
      then case rio_read rp nleft ins of
          None \<Rightarrow> None
        | Some (nread, bs, rp', ins') \<Rightarrow>
            if nread < 0 then Some (-1, buf, rp', ins')
            else if nread = 0 then Some (int (n - nleft), buf, rp', ins')
            else readnb_loop n (nleft - nat nread) (buf @ bs) rp' ins'
      else Some (int (n - nleft), buf, rp, ins))"
  by pat_completeness auto
termination
  by (relation "measure (\<lambda>(n, nleft, buf, rp, ins). nleft)") auto

declare readnb_loop.simps [simp del]

definition rio_readnb :: "nat \<Rightarrow> rio_t \<Rightarrow> read_event list \<Rightarrow> (int \<times> string \<times> rio_t \<times> read_event list) option" where
  "rio_readnb n rp ins = readnb_loop n n [] rp ins"

lemma readnb_loop_result:
  assumes "readnb_loop n nleft buf rp ins = Some (ret, out, rp', ins')" and "rio_ok rp" and "nleft \<le> n"
    and "length buf = n - nleft"
  shows "rio_ok rp' \<and> (ret = -1 \<or> ret = int (length out) \<and> buf @ stream rp ins = out @ stream rp' ins' \<and>
    (length out = n \<or> length out < n \<and> stream rp' ins' = [] \<and> avail_end ins = Some Eof))"
  using assms
proof (induction n nleft buf rp ins rule: readnb_loop.induct)
  case (1 n nleft buf rp ins)
  show ?case
  proof (cases "0 < nleft")
    case False
    with "1.prems" show ?thesis by (subst (asm) readnb_loop.simps) auto
  next
    case True
    with "1.prems"(1) obtain rc bs rp1 ins1 where r: "rio_read rp nleft ins = Some (rc, bs, rp1, ins1)"
      by (subst (asm) readnb_loop.simps) (auto split: option.splits)
    note post = rio_read_bytes [OF r "1.prems"(2) True]
    consider (err) "rc < 0" | (eof) "rc = 0" | (data) "0 < rc" by linarith
    then show ?thesis
    proof cases
      case data
      with post have d: "rc = int (length bs)" "length bs \<le> nleft" "stream rp ins = bs @ stream rp1 ins1"
        "avail_end ins1 = avail_end ins" "rio_ok rp1"
        by (auto simp: read_post_def)
      have "readnb_loop n (nleft - nat rc) (buf @ bs) rp1 ins1 = Some (ret, out, rp', ins')"
        using "1.prems"(1) True r data by (subst (asm) readnb_loop.simps) simp
      with "1.IH" [OF True r refl refl refl] data d "1.prems"(3,4) show ?thesis by auto
    next
      case eof
      with "1.prems" True r post show ?thesis by (subst (asm) readnb_loop.simps) (auto simp: read_post_def)
    next
      case err
      with "1.prems" True r post show ?thesis by (subst (asm) readnb_loop.simps) (auto simp: read_post_def)
    qed
  qed
qed

lemma readn_loop_result:
  assumes "readn_loop n nleft buf ins = Some (ret, out, ins')" and "nleft \<le> n" and "length buf = n - nleft"
  shows "ret = -1 \<or> ret = int (length out) \<and> buf @ avail ins = out @ avail ins' \<and>
    (length out = n \<or> length out < n \<and> avail ins' = [] \<and> avail_end ins = Some Eof)"
  using assms
proof (induction n nleft buf ins rule: readn_loop.induct)
  case (1 n nleft buf ins)
  show ?case
  proof (cases "0 < nleft")
    case False
    with "1.prems" show ?thesis by (subst (asm) readn_loop.simps) auto
  next
    case True
    with "1.prems"(1) obtain rc e bs ins1 where r: "sys_read nleft ins = Some (rc, e, bs, ins1)"
      by (subst (asm) readn_loop.simps) (auto split: option.splits)
    note av = sys_read_avail [OF True r]
    consider (again) "rc < 0" "e" | (err) "rc < 0" "\<not> e" | (eof) "rc = 0" | (data) "0 < rc" by linarith
    then show ?thesis
    proof cases
      case again
      then have "readn_loop n nleft buf ins1 = Some (ret, out, ins')"
        using "1.prems"(1) True r by (subst (asm) readn_loop.simps) simp
      with "1.IH"(1) [OF True r refl refl refl] again av "1.prems"(2,3) show ?thesis by simp
    next
      case err
      with "1.prems" True r show ?thesis by (subst (asm) readn_loop.simps) simp
    next
      case eof
      with "1.prems" True r av show ?thesis by (subst (asm) readn_loop.simps) auto
    next
      case data
      then have "readn_loop n (nleft - nat rc) (buf @ bs) ins1 = Some (ret, out, ins')"
        using "1.prems"(1) True r by (subst (asm) readn_loop.simps) simp
      with "1.IH"(2) [OF True r refl refl refl] data av "1.prems"(2,3) show ?thesis by auto
    qed
  qed
qed

subsection \<open>Wrappers\<close>

text \<open>\<open>strerror\<close> is the text for the value of \<open>errno\<close>.\<close>

definition Rio_readn :: "string \<Rightarrow> nat \<Rightarrow> read_event list \<Rightarrow> ((int \<times> string) call \<times> read_event list) option" where
  "Rio_readn strerror nbytes ins =
     (case rio_readn nbytes ins of
        None \<Rightarrow> None
      | Some (n, buf, ins') \<Rightarrow> Some (if n < 0 then unix_error ''Rio_readn error'' strerror else Returned (n, buf), ins'))"

definition Rio_writen :: "string \<Rightarrow> string \<Rightarrow> write_event list \<Rightarrow> (unit call \<times> string \<times> write_event list) option" where
  "Rio_writen strerror usrbuf evs =
     (case rio_writen usrbuf evs of
        None \<Rightarrow> None
      | Some (r, sent, evs') \<Rightarrow>
          Some (if r \<noteq> int (length usrbuf) then unix_error ''Rio_writen error'' strerror else Returned (), sent, evs'))"

definition Rio_readinitb :: "rio_t \<Rightarrow> int \<Rightarrow> rio_t" where
  "Rio_readinitb rp fd = rio_readinitb rp fd"

definition Rio_readnb ::
  "string \<Rightarrow> nat \<Rightarrow> rio_t \<Rightarrow> read_event list \<Rightarrow> ((int \<times> string) call \<times> rio_t \<times> read_event list) option" where
  "Rio_readnb strerror n rp ins =
     (case rio_readnb n rp ins of
        None \<Rightarrow> None
      | Some (rc, buf, rp', ins') \<Rightarrow>
          Some (if rc < 0 then unix_error ''Rio_readnb error'' strerror else Returned (rc, buf), rp', ins'))"

definition Rio_readlineb ::
  "string \<Rightarrow> nat \<Rightarrow> rio_t \<Rightarrow> read_event list \<Rightarrow> ((int \<times> string) call \<times> rio_t \<times> read_event list) option" where
  "Rio_readlineb strerror maxlen rp ins =
     (case rio_readlineb rp maxlen ins of
        None \<Rightarrow> None
      | Some (rc, buf, rp', ins') \<Rightarrow>
          Some (if rc < 0 then unix_error ''Rio_readlineb error'' strerror else Returned (rc, buf), rp', ins'))"

subsection \<open>Properties\<close>



end
