(* ===== verification/Startup.thy ===== *)
theory Startup
  imports Concurrency Csapp_Io
begin

section \<open>Opening sockets and starting the server\<close>

text \<open>
  \<open>open_clientfd\<close> and \<open>open_listenfd\<close> of \<open>csapp.c\<close>, \<open>Server::listen\<close> and the
  \<open>main\<close> of \<open>server_main.cpp\<close>. What the system calls return is an argument: for every
  address of the list that \<open>getaddrinfo\<close> returns, what \<open>socket\<close>, then \<open>connect\<close> or
  \<open>bind\<close>, and \<open>close\<close> return for it. The functions give the descriptor or error code, what
  they printed, and the calls they made, from which the descriptors that are open afterwards
  follow.
\<close>

record attempt =
  a_socket :: int
  a_connect :: int
  a_close :: int
  a_strerror :: string

datatype sys_call = Socket int | Connect int int | Bind int int | Setsockopt int | Listen int int | Close int int | Freeaddrinfo

datatype lookup_result = Addresses "attempt list" | Gai_failure string

text \<open>How the loop over the addresses ends: with a descriptor, with the list exhausted, or by the
  early return after a failed \<open>close\<close>, whose message has been printed.\<close>

datatype walk = Found int | Exhausted | Aborted string

fun client_loop :: "attempt list \<Rightarrow> walk \<times> sys_call list" where
  "client_loop [] = (Exhausted, [])"
| "client_loop (p # ps) =
     (if a_socket p < 0 then (case client_loop ps of (w, tr) \<Rightarrow> (w, Socket (a_socket p) # tr))
      else if a_connect p \<noteq> -1 then (Found (a_socket p), [Socket (a_socket p), Connect (a_socket p) (a_connect p)])
      else if a_close p < 0 then
        (Aborted (''open_clientfd: close failed: '' @ a_strerror p @ ''\<newline>''),
         [Socket (a_socket p), Connect (a_socket p) (a_connect p), Close (a_socket p) (a_close p)])
      else (case client_loop ps of (w, tr) \<Rightarrow>
         (w, Socket (a_socket p) # Connect (a_socket p) (a_connect p) # Close (a_socket p) (a_close p) # tr)))"

definition open_clientfd :: "string \<Rightarrow> string \<Rightarrow> lookup_result \<Rightarrow> int \<times> string \<times> sys_call list" where
  "open_clientfd hostname port found =
     (case found of
        Gai_failure msg \<Rightarrow> (-2, ''getaddrinfo failed ('' @ hostname @ '':'' @ port @ ''): '' @ msg @ ''\<newline>'', [])
      | Addresses listp \<Rightarrow>
          (case client_loop listp of
             (Aborted msg, tr) \<Rightarrow> (-1, msg, tr)
           | (Exhausted, tr) \<Rightarrow> (-1, [], tr @ [Freeaddrinfo])
           | (Found fd, tr) \<Rightarrow> (fd, [], tr @ [Freeaddrinfo])))"

text \<open>For a listening socket \<open>a_connect\<close> is what \<open>bind\<close> returns.\<close>

fun listen_loop :: "attempt list \<Rightarrow> walk \<times> sys_call list" where
  "listen_loop [] = (Exhausted, [])"
| "listen_loop (p # ps) =
     (if a_socket p < 0 then (case listen_loop ps of (w, tr) \<Rightarrow> (w, Socket (a_socket p) # tr))
      else if a_connect p = 0 then
        (Found (a_socket p), [Socket (a_socket p), Setsockopt (a_socket p), Bind (a_socket p) (a_connect p)])
      else if a_close p < 0 then
        (Aborted (''open_listenfd close failed: '' @ a_strerror p @ ''\<newline>''),
         [Socket (a_socket p), Setsockopt (a_socket p), Bind (a_socket p) (a_connect p), Close (a_socket p) (a_close p)])
      else (case listen_loop ps of (w, tr) \<Rightarrow>
         (w, Socket (a_socket p) # Setsockopt (a_socket p) # Bind (a_socket p) (a_connect p) #
             Close (a_socket p) (a_close p) # tr)))"

definition open_listenfd :: "string \<Rightarrow> lookup_result \<Rightarrow> int \<Rightarrow> int \<Rightarrow> int \<times> string \<times> sys_call list" where
  "open_listenfd port found listen_rc close_rc =
     (case found of
        Gai_failure msg \<Rightarrow> (-2, ''getaddrinfo failed (port '' @ port @ ''): '' @ msg @ ''\<newline>'', [])
      | Addresses listp \<Rightarrow>
          (case listen_loop listp of
             (Aborted msg, tr) \<Rightarrow> (-1, msg, tr)
           | (Exhausted, tr) \<Rightarrow> (-1, [], tr @ [Freeaddrinfo])
           | (Found fd, tr) \<Rightarrow>
               if listen_rc < 0
               then (-1, [], tr @ [Freeaddrinfo, Listen fd listen_rc, Close fd close_rc])
               else (fd, [], tr @ [Freeaddrinfo, Listen fd listen_rc])))"

fun after_printing :: "string \<Rightarrow> 'a call \<Rightarrow> 'a call" where
  "after_printing txt (Exited n err) = Exited n (txt @ err)"
| "after_printing txt (Returned x) = Returned x"

definition Open_clientfd :: "string \<Rightarrow> string \<Rightarrow> string \<Rightarrow> lookup_result \<Rightarrow> int call" where
  "Open_clientfd strerror hostname port found =
     (case open_clientfd hostname port found of (rc, printed, tr) \<Rightarrow>
        if rc < 0 then after_printing printed (unix_error ''Open_clientfd error'' strerror) else Returned rc)"

definition Open_listenfd :: "string \<Rightarrow> string \<Rightarrow> lookup_result \<Rightarrow> int \<Rightarrow> int \<Rightarrow> int call" where
  "Open_listenfd strerror port found listen_rc close_rc =
     (case open_listenfd port found listen_rc close_rc of (rc, printed, tr) \<Rightarrow>
        if rc < 0 then after_printing printed (unix_error ''Open_listenfd error'' strerror) else Returned rc)"

subsection \<open>The server's \<open>main\<close>\<close>

text \<open>
  The result of \<open>open_listenfd\<close> is the argument \<open>opened\<close>. \<open>Server::listen\<close> stores it and
  logs and throws when it is negative; \<open>main\<close> logs what it catches. A server that listens is in
  the state \<open>boot\<close> of theory \<open>Concurrency\<close>, and \<open>server_loop\<close> never returns.
\<close>

datatype start = Serving int system | Stopped_with int "string list"

definition server_listen :: "int \<Rightarrow> system \<Rightarrow> int result \<times> system" where
  "server_listen opened s =
     (if opened < 0
      then (Inl (Raise (Runtime_error ''Failed to open listen socket'')), log_error ''Failed to open listen socket'' s)
      else (Inr opened, s))"

definition server_main :: "string list \<Rightarrow> int \<Rightarrow> start" where
  "server_main argv opened =
     (if length argv \<noteq> 2 then Stopped_with 1 [''Usage: ./server <port>\<newline>'']
      else case server_listen opened boot of
          (Inl e, s) \<Rightarrow> Stopped_with 1 (cerr (log_error ''Fatal error starting server'' s))
        | (Inr ssock_fd, s) \<Rightarrow> Serving ssock_fd s)"

subsection \<open>No descriptor is leaked\<close>

text \<open>The descriptors that are open after a list of calls.\<close>

fun open_after :: "sys_call list \<Rightarrow> int set \<Rightarrow> int set" where
  "open_after [] F = F"
| "open_after (Socket fd # tr) F = open_after tr (if fd < 0 then F else insert fd F)"
| "open_after (Close fd rc # tr) F = open_after tr (F - {fd})"
| "open_after (_ # tr) F = open_after tr F"

lemma open_after_append: "open_after (tr @ tr') F = open_after tr' (open_after tr F)"
  by (induction tr F rule: open_after.induct) auto

text \<open>The kernel never returns a descriptor that is in use.\<close>

definition new_descriptors :: "attempt list \<Rightarrow> int set \<Rightarrow> bool" where
  "new_descriptors ps F \<longleftrightarrow> (\<forall>p\<in>set ps. a_socket p \<notin> F)"

lemma client_loop_open:
  "new_descriptors ps F \<Longrightarrow> client_loop ps = (w, tr) \<Longrightarrow>
   open_after tr F = (case w of Found fd \<Rightarrow> insert fd F | _ \<Rightarrow> F) \<and>
   (\<forall>fd. w = Found fd \<longrightarrow> 0 \<le> fd \<and> (\<exists>p\<in>set ps. a_socket p = fd \<and> a_connect p \<noteq> -1))"
  by (induction ps arbitrary: w tr) (force simp: new_descriptors_def split: if_splits prod.splits)+

lemma listen_loop_open:
  "new_descriptors ps F \<Longrightarrow> listen_loop ps = (w, tr) \<Longrightarrow>
   open_after tr F = (case w of Found fd \<Rightarrow> insert fd F | _ \<Rightarrow> F) \<and>
   (\<forall>fd. w = Found fd \<longrightarrow> 0 \<le> fd \<and> fd \<notin> F \<and> (\<exists>p\<in>set ps. a_socket p = fd \<and> a_connect p = 0))"
  by (induction ps arbitrary: w tr) (force simp: new_descriptors_def split: if_splits prod.splits)+

subsection \<open>Properties\<close>

text \<open>C38. Opening a socket leaks no descriptor: whatever the system calls return, afterwards the
  descriptors that were open before are open, and beyond them exactly the one that is returned.
  A descriptor is returned only for an address that could be connected or bound; every
  other result is negative.\<close>
theorem sockets_do_not_leak:
  assumes "new_descriptors ps F"
    and "open_clientfd h p (Addresses ps) = (r, out, tr)"
    and "open_listenfd p (Addresses ps) listen_rc close_rc = (r', out', tr')"
  shows "open_after tr F = (if r < 0 then F else insert r F) \<and>
    open_after tr' F = (if r' < 0 then F else insert r' F) \<and>
    (0 \<le> r \<longrightarrow> (\<exists>a\<in>set ps. a_socket a = r \<and> a_connect a \<noteq> -1)) \<and>
    (0 \<le> r' \<longrightarrow> 0 \<le> listen_rc \<and> (\<exists>a\<in>set ps. a_socket a = r' \<and> a_connect a = 0))"
proof -
  obtain w t where 1: "client_loop ps = (w, t)" by force
  obtain w' t' where 2: "listen_loop ps = (w', t')" by force
  note c = client_loop_open [OF assms(1) 1] and l = listen_loop_open [OF assms(1) 2]
  have "open_after tr F = (if r < 0 then F else insert r F) \<and>
      (0 \<le> r \<longrightarrow> (\<exists>a\<in>set ps. a_socket a = r \<and> a_connect a \<noteq> -1))"
  proof (cases w)
    case (Found fd)
    with c have f: "open_after t F = insert fd F" "0 \<le> fd" "\<exists>a\<in>set ps. a_socket a = fd \<and> a_connect a \<noteq> -1"
      by simp_all
    from Found assms(2) 1 have "r = fd" "tr = t @ [Freeaddrinfo]" by (simp_all add: open_clientfd_def)
    with f show ?thesis by (simp add: open_after_append)
  next
    case Exhausted
    with assms(2) 1 have "r = -1" "tr = t @ [Freeaddrinfo]" by (simp_all add: open_clientfd_def)
    with c Exhausted show ?thesis by (simp add: open_after_append)
  next
    case (Aborted msg)
    with assms(2) 1 have "r = -1" "tr = t" by (simp_all add: open_clientfd_def)
    with c Aborted show ?thesis by simp
  qed
  moreover have "open_after tr' F = (if r' < 0 then F else insert r' F) \<and>
      (0 \<le> r' \<longrightarrow> 0 \<le> listen_rc \<and> (\<exists>a\<in>set ps. a_socket a = r' \<and> a_connect a = 0))"
  proof (cases w')
    case (Found fd)
    with l have f: "open_after t' F = insert fd F" "0 \<le> fd" "fd \<notin> F" "\<exists>a\<in>set ps. a_socket a = fd \<and> a_connect a = 0"
      by simp_all
    show ?thesis
    proof (cases "listen_rc < 0")
      case True
      with Found assms(3) 2 have "r' = -1" "tr' = t' @ [Freeaddrinfo, Listen fd listen_rc, Close fd close_rc]"
        by (simp_all add: open_listenfd_def)
      with f(1,3) show ?thesis by (simp add: open_after_append)
    next
      case False
      with Found assms(3) 2 have "r' = fd" "tr' = t' @ [Freeaddrinfo, Listen fd listen_rc]"
        by (auto simp: open_listenfd_def)
      with f False show ?thesis by (simp add: open_after_append)
    qed
  next
    case Exhausted
    with assms(3) 2 have "r' = -1" "tr' = t' @ [Freeaddrinfo]" by (simp_all add: open_listenfd_def)
    with l Exhausted show ?thesis by (simp add: open_after_append)
  next
    case (Aborted msg)
    with assms(3) 2 have "r' = -1" "tr' = t'" by (simp_all add: open_listenfd_def)
    with l Aborted show ?thesis by simp
  qed
  ultimately show ?thesis by blast
qed

lemma sockets_do_not_leak_witness:
  "open_after (snd (snd (open_clientfd ''h'' ''80''
      (Addresses [\<lparr>a_socket = 3, a_connect = -1, a_close = 0, a_strerror = []\<rparr>,
                  \<lparr>a_socket = 3, a_connect = 0, a_close = 0, a_strerror = []\<rparr>])))) {0, 1, 2} = {0, 1, 2, 3}"
proof -
  let ?ps = "[\<lparr>a_socket = 3, a_connect = -1, a_close = 0, a_strerror = []\<rparr>,
              \<lparr>a_socket = 3, a_connect = 0, a_close = 0, a_strerror = []\<rparr>]"
  have new: "new_descriptors ?ps {0, 1, 2}" by (simp add: new_descriptors_def)
  obtain r' out' tr' where l: "open_listenfd ''80'' (Addresses ?ps) 0 0 = (r', out', tr')" by (metis prod.exhaust)
  obtain out tr where c: "open_clientfd ''h'' ''80'' (Addresses ?ps) = (3, out, tr)" by (simp add: open_clientfd_def)
  from sockets_do_not_leak [OF new c l] c show ?thesis by auto
qed

end
