(* ===== verification/Sio.thy ===== *)
theory Sio
  imports Numeric Csapp_Io
begin

section \<open>Signal-safe output\<close>

text \<open>
  The \<open>sio_\<close> functions of \<open>csapp.c\<close>. A character array is a list that is updated in place;
  reading or writing outside of it is undefined behaviour, as is the negation of the smallest
  \<open>long\<close>. The last theorem says that \<open>sio_putl\<close> writes the usual decimal representation, the
  one of \<open>std::to_string\<close>, and that its buffer of 128 bytes is large enough.
\<close>

definition out_of_bounds :: failure where
  "out_of_bounds = Undefined_behaviour ''array index out of bounds''"

definition put :: "string \<Rightarrow> nat \<Rightarrow> char \<Rightarrow> string result" where
  "put s i c = (if i < length s then Inr (s[i := c]) else Inl out_of_bounds)"

function strlen_from :: "string \<Rightarrow> nat \<Rightarrow> nat result" where
  "strlen_from s i =
     (if i < length s then (if s ! i \<noteq> CHR 0x00 then strlen_from s (Suc i) else Inr i) else Inl out_of_bounds)"
  by pat_completeness auto
termination
  by (relation "measure (\<lambda>(s, i). length s - i)") auto

declare strlen_from.simps [simp del]

definition sio_strlen :: "string \<Rightarrow> nat result" where
  "sio_strlen s = strlen_from s 0"

function reverse_loop :: "string \<Rightarrow> int \<Rightarrow> int \<Rightarrow> string" where
  "reverse_loop s i j =
     (if i < j then reverse_loop (s[nat i := s ! nat j, nat j := s ! nat i]) (i + 1) (j - 1) else s)"
  by pat_completeness auto
termination
  by (relation "measure (\<lambda>(s, i, j). nat (j - i))") auto

declare reverse_loop.simps [simp del]

text \<open>\<open>strlen\<close> of the C library is the same loop.\<close>

definition sio_reverse :: "string \<Rightarrow> string result" where
  "sio_reverse s = (case strlen_from s 0 of Inl e \<Rightarrow> Inl e | Inr n \<Rightarrow> Inr (reverse_loop s 0 (int n - 1)))"

definition ltoa_digit :: "int \<Rightarrow> char" where
  "ltoa_digit c = (if c < 10 then char_of (c + 48) else char_of (c - 10 + 97))"

text \<open>The \<open>do\<close> loop; \<open>v\<close> is not negative here, so that \<open>%\<close> and \<open>/\<close> are \<open>mod\<close> and \<open>div\<close>.\<close>

function ltoa_loop :: "int \<Rightarrow> int \<Rightarrow> nat \<Rightarrow> string \<Rightarrow> (nat \<times> string) result" where
  "ltoa_loop v b i s =
     (case put s i (ltoa_digit (v mod b)) of
        Inl e \<Rightarrow> Inl e
      | Inr s' \<Rightarrow> if v div b > 0 then ltoa_loop (v div b) b (Suc i) s' else Inr (Suc i, s'))"
  by pat_completeness auto
termination
  by (relation "measure (\<lambda>(v, b, i, s). length s - i)") (auto simp: put_def split: if_splits)

declare ltoa_loop.simps [simp del]

definition sio_ltoa :: "int \<Rightarrow> string \<Rightarrow> int \<Rightarrow> string result" where
  "sio_ltoa v s b =
     (let neg = v < 0 in
      if v = - (2 ^ 63) then Inl (Undefined_behaviour ''negation of LONG_MIN'')
      else case ltoa_loop (if neg then - v else v) b 0 s of
          Inl e \<Rightarrow> Inl e
        | Inr (i, s) \<Rightarrow>
            (case (if neg then put s i CHR ''-'' else Inr s) of
               Inl e \<Rightarrow> Inl e
             | Inr s \<Rightarrow>
                 (case put s (if neg then Suc i else i) CHR 0x00 of
                    Inl e \<Rightarrow> Inl e
                  | Inr s \<Rightarrow> sio_reverse s)))"

text \<open>What is handed to \<open>write\<close> on the standard output; \<open>raw\<close> is the uninitialised array.\<close>

definition sio_puts :: "string \<Rightarrow> string result" where
  "sio_puts s = (case sio_strlen s of Inl e \<Rightarrow> Inl e | Inr n \<Rightarrow> Inr (take n s))"

definition sio_putl :: "string \<Rightarrow> int \<Rightarrow> string result" where
  "sio_putl raw v = (case sio_ltoa v raw 10 of Inl e \<Rightarrow> Inl e | Inr s \<Rightarrow> sio_puts s)"

text \<open>
  The wrappers: \<open>wr\<close> is the value that \<open>write\<close> returns for these bytes. The error text goes to
  the standard output too, and the process ends with status 1.
\<close>

definition sio_error :: "string \<Rightarrow> 'a call result" where
  "sio_error s = (case sio_puts s of Inl e \<Rightarrow> Inl e | Inr msg \<Rightarrow> Inr (Exited 1 msg))"

definition Sio_putl :: "(string \<Rightarrow> int) \<Rightarrow> string \<Rightarrow> int \<Rightarrow> int call result" where
  "Sio_putl wr raw v =
     (case sio_putl raw v of
        Inl e \<Rightarrow> Inl e
      | Inr out \<Rightarrow> if wr out < 0 then sio_error (''Sio_putl error'' @ [CHR 0x00]) else Inr (Returned (wr out)))"

definition Sio_puts :: "(string \<Rightarrow> int) \<Rightarrow> string \<Rightarrow> int call result" where
  "Sio_puts wr s =
     (case sio_puts s of
        Inl e \<Rightarrow> Inl e
      | Inr out \<Rightarrow> if wr out < 0 then sio_error (''Sio_puts error'' @ [CHR 0x00]) else Inr (Returned (wr out)))"

definition Sio_error :: "string \<Rightarrow> 'a call result" where
  "Sio_error s = sio_error s"

subsection \<open>The loops\<close>

lemma strlen_from_eq: "i \<le> length w \<Longrightarrow> CHR 0x00 \<notin> set (drop i w) \<Longrightarrow> strlen_from (w @ CHR 0x00 # t) i = Inr (length w)"
proof (induction "length w - i" arbitrary: i)
  case 0
  then have "i = length w" by simp
  then show ?case by (subst strlen_from.simps) simp
next
  case (Suc k)
  then have i: "i < length w" by simp
  then have "drop i w = w ! i # drop (Suc i) w" by (simp add: Cons_nth_drop_Suc)
  with Suc.prems(2) have "w ! i \<noteq> CHR 0x00" "CHR 0x00 \<notin> set (drop (Suc i) w)" by auto
  with Suc.hyps i show ?case by (subst strlen_from.simps) (simp add: nth_append)
qed

lemma reverse_loop_eq:
  "int (length u) = i \<Longrightarrow> i + int (length w) = j + 1 \<Longrightarrow> reverse_loop (u @ w @ t) i j = u @ rev w @ t"
proof (induction "length w" arbitrary: u w t i j rule: less_induct)
  case less
  show ?case
  proof (cases "length w < 2")
    case True
    then have "w = [] \<or> (\<exists>x. w = [x])" by (cases w) auto
    with less.prems show ?thesis by (subst reverse_loop.simps) auto
  next
    case False
    then obtain x w' where "w = x # w'" "w' \<noteq> []" by (cases w) auto
    then obtain m y where w: "w = x # m @ [y]" by (metis append_butlast_last_id)
    have i: "nat i = length u" "nat j = Suc (length u + length m)" "i < j"
      using less.prems w by auto
    let ?s = "u @ w @ t"
    have "?s[nat i := ?s ! nat j, nat j := ?s ! nat i] = (u @ [y]) @ m @ x # t"
      using i w by (simp add: nth_append list_update_append)
    then have "reverse_loop ?s i j = reverse_loop ((u @ [y]) @ m @ x # t) (i + 1) (j - 1)"
      using i(3) by (subst reverse_loop.simps) simp
    also have "\<dots> = (u @ [y]) @ rev m @ x # t"
      using w less.prems by (intro less.hyps) auto
    finally show ?thesis using w by simp
  qed
qed

lemma ltoa_digit_eq: "ltoa_digit (int n mod 10) = digit_char (n mod 10)"
proof -
  have m: "int n mod 10 = int (n mod 10)" by (simp add: zmod_int)
  have "int (n mod 10) + 48 = int (48 + n mod 10)" by simp
  moreover have "int (n mod 10) < 10" by simp
  ultimately show ?thesis unfolding m ltoa_digit_def digit_char_def by (simp only: char_of_nat if_True)
qed

lemma ltoa_loop_eq:
  "i + length (show_nat n) \<le> length s \<Longrightarrow>
   ltoa_loop (int n) 10 i s =
     Inr (i + length (show_nat n), take i s @ rev (show_nat n) @ drop (i + length (show_nat n)) s)"
proof (induction n arbitrary: i s rule: show_nat.induct)
  case (1 n)
  have "show_nat n \<noteq> []" by simp
  with "1.prems" have i: "i < length s" by (cases "show_nat n") auto
  let ?s = "s[i := digit_char (n mod 10)]"
  have s: "?s = take i s @ digit_char (n mod 10) # drop (Suc i) s" using i by (rule upd_conv_take_nth_drop)
  have step: "ltoa_loop (int n) 10 i s =
      (if 10 \<le> n then ltoa_loop (int (n div 10)) 10 (Suc i) ?s else Inr (Suc i, ?s))"
    using i by (subst ltoa_loop.simps) (auto simp: put_def ltoa_digit_eq zdiv_int)
  show ?case
  proof (cases "n < 10")
    case True
    with step s show ?thesis by (simp add: show_nat.simps [of n])
  next
    case False
    then have sh: "show_nat n = show_nat (n div 10) @ [digit_char (n mod 10)]" by (subst show_nat.simps) simp
    have "Suc i + length (show_nat (n div 10)) \<le> length ?s" using "1.prems" sh by simp
    from "1.IH" [OF False this] False step show ?thesis
      using i by (simp add: sh s min_def add.commute)
  qed
qed

lemma show_nat_no_nul: "CHR 0x00 \<notin> set (show_nat n)"
  using show_nat_digits [of n] by (auto simp: list_all_iff isdigit_def schar_def)

lemma put_end: "put (w @ c # t) (length w) d = Inr (w @ d # t)"
  by (simp add: put_def list_update_append)

lemma sio_reverse_eq: "CHR 0x00 \<notin> set w \<Longrightarrow> sio_reverse (w @ CHR 0x00 # t) = Inr (rev w @ CHR 0x00 # t)"
  using reverse_loop_eq [of "[]" 0 w "int (length w) - 1" "CHR 0x00 # t"]
  by (simp add: sio_reverse_def strlen_from_eq)

text \<open>The array after \<open>sio_ltoa\<close>: the number, a zero, and the rest as it was.\<close>

lemma sio_ltoa_eq:
  assumes "- (2 ^ 63) < v" and "length (show_int v) < length s"
  shows "\<exists>t. sio_ltoa v s 10 = Inr (show_int v @ CHR 0x00 # t)"
proof -
  let ?n = "nat \<bar>v\<bar>"
  let ?R = "rev (show_nat ?n)"
  have sh: "show_int v = (if v < 0 then ''-'' else []) @ show_nat ?n" by (simp add: show_int_def)
  have k: "length ?R \<le> length s" using assms(2) sh by (auto split: if_splits)
  have loop: "ltoa_loop (if v < 0 then - v else v) 10 0 s = Inr (length ?R, ?R @ drop (length ?R) s)"
    using ltoa_loop_eq [of 0 ?n s] k by (auto split: if_splits)
  have nul: "CHR 0x00 \<notin> set ?R" using show_nat_no_nul [of ?n] by simp
  show ?thesis
  proof (cases "v < 0")
    case True
    then have "length ?R + 2 \<le> length s" using assms(2) sh by simp
    then obtain a b t where d: "drop (length ?R) s = a # b # t"
      by (metis Cons_nth_drop_Suc add_2_eq_Suc' Suc_le_eq Suc_lessD)
    have "put (?R @ a # b # t) (length ?R) CHR ''-'' = Inr ((?R @ ''-'') @ b # t)"
      "put ((?R @ ''-'') @ b # t) (Suc (length ?R)) CHR 0x00 = Inr ((?R @ ''-'') @ CHR 0x00 # t)"
      using put_end [of ?R a "b # t" "CHR ''-''"] put_end [of "?R @ ''-''" b t "CHR 0x00"] by simp_all
    moreover have "sio_reverse ((?R @ ''-'') @ CHR 0x00 # t) = Inr (rev (?R @ ''-'') @ CHR 0x00 # t)"
      using nul by (intro sio_reverse_eq) simp
    ultimately show ?thesis
      using loop d True assms(1) sh by (simp add: sio_ltoa_def del: append_assoc)
  next
    case False
    then have "length ?R < length s" using assms(2) sh by simp
    then obtain a t where d: "drop (length ?R) s = a # t" by (metis Cons_nth_drop_Suc)
    have "put (?R @ a # t) (length ?R) CHR 0x00 = Inr (?R @ CHR 0x00 # t)" by (rule put_end)
    with loop d False nul show ?thesis
      by (simp add: sio_ltoa_def sh sio_reverse_eq)
  qed
qed

subsection \<open>Properties\<close>

text \<open>C39. \<open>sio_putl\<close> writes the decimal representation that \<open>std::to_string\<close> gives, for every
  \<open>long\<close> but the smallest, without leaving its buffer of 128 bytes; for the smallest, negating
  it overflows.\<close>
theorem sio_putl_is_to_string:
  assumes "length raw = 128" and "- (2 ^ 63) \<le> v" and "v < 2 ^ 63"
  shows "sio_putl raw v =
    (if v = - (2 ^ 63) then Inl (Undefined_behaviour ''negation of LONG_MIN'') else Inr (show_int v))"
proof (cases "v = - (2 ^ 63)")
  case True
  then show ?thesis by (simp add: sio_putl_def sio_ltoa_def)
next
  case False
  have "nat \<bar>v\<bar> < 10 ^ Suc 19" using assms(2,3) by (simp add: nat_less_iff)
  then have "length (show_nat (nat \<bar>v\<bar>)) \<le> 20" using length_show_nat [of "nat \<bar>v\<bar>" 19] by simp
  then have "length (show_int v) < length raw" using assms(1) by (auto simp: show_int_def)
  with False assms(2) sio_ltoa_eq [of v raw] obtain t where "sio_ltoa v raw 10 = Inr (show_int v @ CHR 0x00 # t)" by auto
  moreover have "CHR 0x00 \<notin> set (show_int v)" using show_nat_no_nul by (simp add: show_int_def)
  ultimately show ?thesis using False by (simp add: sio_putl_def sio_puts_def sio_strlen_def strlen_from_eq)
qed

lemma sio_putl_is_to_string_witness: "sio_putl (replicate 128 CHR ''x'') (- 42) = Inr ''-42''"
proof -
  have "show_int (- 42) = ''-42''" by code_simp
  with sio_putl_is_to_string [of "replicate 128 CHR ''x''" "- 42"] show ?thesis by simp
qed

end
