(* ===== verification/Rollback.thy ===== *)
theory Rollback
  imports Refinement
begin

section \<open>A transaction that cannot get a lock\<close>

text \<open>
  Theory \<open>Refinement\<close> is about a connection that nobody disturbs, where every \<open>trylock\<close>
  succeeds. Here another connection holds the table: the transaction is rolled back, all its
  tables are given back as they were, and the client is told.
\<close>

definition abandon :: "table \<Rightarrow> table" where
  "abandon tb = table_unlock (rollback_changes tb)"

lemma abandon_abs [simp]:
  "committed (abandon tb) = committed tb" "pending (abandon tb) = Map.empty" "m_mutex (abandon tb) = None"
  by (simp_all add: abandon_def committed_def pending_def table_unlock_def rollback_changes_def mutex_unlock_def fun_eq_iff)

definition abandon_all :: "tid list \<Rightarrow> server \<Rightarrow> server" where
  "abandon_all ts s = s\<lparr>heap := (\<lambda>t. if t \<in> set ts then map_option abandon (heap s t) else heap s t)\<rparr>"

lemma run_rollback_each:
  "distinct ts \<Longrightarrow> set ts \<subseteq> dom (heap s) \<Longrightarrow>
   run (exec i) (seq (rollback_each ts) f c) s = run (exec i) (f () c) (abandon_all ts s)"
proof (induction ts arbitrary: s)
  case Nil
  then show ?case by (simp add: seq_ret abandon_all_def)
next
  case (Cons t ts)
  then obtain tb where tb: "heap s t = Some tb" by auto
  let ?s = "s\<lparr>heap := (heap s)(t \<mapsto> abandon tb)\<rparr>"
  have "run (exec i) (seq (rollback_each (t # ts)) f c) s = run (exec i) (seq (rollback_each ts) f c) ?s"
    using tb by (simp add: seq_assoc seq_act on_table_def abandon_def)
  also have "\<dots> = run (exec i) (f () c) (abandon_all ts ?s)"
    using Cons.prems by (intro Cons.IH) auto
  also have "abandon_all ts ?s = abandon_all (t # ts) s"
    using Cons.prems(1) tb by (auto simp: abandon_all_def fun_eq_iff)
  finally show ?case .
qed

lemma seq_rollback_tables:
  "seq rollback_tables f c =
   seq (rollback_each (locked_tables c)) (\<lambda>_. seq (modify (\<lambda>c. c\<lparr>locked_tables := []\<rparr>)) f) c"
  unfolding seq_assoc [symmetric]
  by (simp only: seq_def [of rollback_tables] seq_def [of "seq (rollback_each ts) g" for ts g] rollback_tables_def)

lemma run_failed_transaction:
  assumes "distinct (locked_tables c)" and "set (locked_tables c) \<subseteq> dom (heap s)"
    and "encode (mk_message FAILED [m]) = Inr w"
  shows "run (exec i) (catch_clauses (Raise (FailedTransaction m)) c) s =
    Finished (Inr True, c\<lparr>locked_tables := [], transaction_mode := False, response := mk_message FAILED [m],
      sent := sent c @ [w]\<rparr>) (abandon_all (locked_tables c) s)"
  using assms(3)
  by (simp add: catch_clauses_def seq_rollback_tables run_rollback_each [OF assms(1,2)] cm_simps finish_iteration_def
      return_response_to_client_def set_transaction_mode_def respond_def seq_def [of return_response_to_client])

lemma run_taken:
  assumes "transaction_mode c" and "t \<notin> set (locked_tables c)" and "heap s t = Some tb" and "m_mutex tb = Some j"
  shows "run (exec i) (seq (handle_table_locking t) f c) s =
    Finished (Inl (Raise (FailedTransaction ''Failed to acquire lock'')), c) s"
  using assms
  by (simp add: seq_def [of "handle_table_locking t"] handle_table_locking_def table_is_locked_def cm_simps
      on_table_def table_trylock_eq fun_upd_idem)

lemma run_taken_dispatch:
  assumes "get_message_type req \<in> {GET, SET}" and "get_table req = Inr n" and "tables_mutex s = None"
    and "RBT.lookup (server_tables s) n = Some t" and "transaction_mode c" and "t \<notin> set (locked_tables c)"
    and "heap s t = Some tb" and "m_mutex tb = Some j"
  shows "run (exec i) (dispatch req c) s = Finished (Inl (Raise (FailedTransaction ''Failed to acquire lock'')), c) s"
  using assms(1-4) run_taken [OF assms(5-8)]
  by (auto simp: handler_run get_request_handler_def set_request_handler_def)



end
