(* ===== verification/Two_Phase.thy ===== *)
theory Two_Phase
  imports Concurrency
begin

section \<open>The phases of a transaction\<close>

text \<open>
  A second discipline of the worker threads, checked on the same programs with the same operator
  rules as the locking discipline. A thread reads and writes (\<open>Active\<close>), then commits table by
  table (\<open>Committing\<close>) or undoes table by table (\<open>Undoing\<close>); it unlocks tables in the last two
  phases only, and goes on to something else only when no table has uncommitted changes of its
  own any more. The ghost state is the set of tables that may have been changed and the phase.
\<close>

datatype phase = Active | Committing | Undoing

fun next_phase :: "action \<Rightarrow> phase \<Rightarrow> phase" where
  "next_phase (Get t k) ph = Active"
| "next_phase (Put t k v) ph = Active"
| "next_phase (Commit t) ph = Committing"
| "next_phase (Rollback t) ph = Undoing"
| "next_phase _ ph = ph"

fun phase_allowed :: "action \<Rightarrow> tid set \<times> phase \<Rightarrow> bool" where
  "phase_allowed (Get t k) (D, ph) \<longleftrightarrow> ph = Active \<or> D = {}"
| "phase_allowed (Put t k v) (D, ph) \<longleftrightarrow> ph = Active \<or> D = {}"
| "phase_allowed (Commit t) (D, ph) \<longleftrightarrow> ph \<noteq> Undoing \<or> D = {}"
| "phase_allowed (Rollback t) (D, ph) \<longleftrightarrow> ph \<noteq> Committing \<or> D = {}"
| "phase_allowed (Unlock_table t) (D, ph) \<longleftrightarrow> ph \<noteq> Active"
| "phase_allowed _ (D, ph) \<longleftrightarrow> True"

fun phase_after :: "action \<Rightarrow> reply \<Rightarrow> tid set \<times> phase \<Rightarrow> tid set \<times> phase" where
  "phase_after (Put t k v) r (D, ph) = (insert t D, Active)"
| "phase_after (Commit t) r (D, ph) = (D - {t}, Committing)"
| "phase_after (Rollback t) r (D, ph) = (D - {t}, Undoing)"
| "phase_after a r (D, ph) = (D, next_phase a ph)"

lemma snd_phase_after [simp]: "snd (phase_after a r h) = next_phase a (snd h)"
  by (cases h; cases a) simp_all

abbreviation phased :: "'a thread_prog \<Rightarrow> tid set \<times> phase \<Rightarrow> ('a \<Rightarrow> tid set \<times> phase \<Rightarrow> bool) \<Rightarrow> bool" where
  "phased \<equiv> safe_by phase_allowed (\<lambda>_ _ _. True) phase_after"

abbreviation cm_phased ::
  "'a cm \<Rightarrow> conn \<Rightarrow> tid set \<times> phase \<Rightarrow> ('a result \<Rightarrow> conn \<Rightarrow> tid set \<times> phase \<Rightarrow> bool) \<Rightarrow> bool" where
  "cm_phased \<equiv> cm_safe_by phase_allowed (\<lambda>_ _ _. True) phase_after"

text \<open>Between two requests the changed tables are locked by the transaction.\<close>

definition phase_inv :: "conn \<Rightarrow> tid set \<times> phase \<Rightarrow> bool" where
  "phase_inv c h \<longleftrightarrow> (case h of (D, ph) \<Rightarrow>
     (ph = Active \<or> D = {}) \<and> D \<subseteq> set (locked_tables c) \<and> (\<not> transaction_mode c \<longrightarrow> D = {}))"

abbreviation keeps_phase :: "'a cm \<Rightarrow> bool" where
  "keeps_phase m \<equiv> \<forall>c h. phase_inv c h \<longrightarrow> cm_phased m c h (\<lambda>_. phase_inv)"

lemma phase_inv_irrelevant [simp]:
  "phase_inv (c\<lparr>response := m\<rparr>) h \<longleftrightarrow> phase_inv c h" "phase_inv (c\<lparr>sent := x\<rparr>) h \<longleftrightarrow> phase_inv c h"
  "phase_inv (c\<lparr>client_stack := st\<rparr>) h \<longleftrightarrow> phase_inv c h" "phase_inv (c\<lparr>logged_in := b\<rparr>) h \<longleftrightarrow> phase_inv c h"
  "phase_inv (c\<lparr>m_fdbuf := rp, input := ins\<rparr>) h \<longleftrightarrow> phase_inv c h"
  by (simp_all add: phase_inv_def)

lemma phased_find_table: "(\<And>p. Q p h) \<Longrightarrow> phased (find_table n) h Q"
  by (cases h) (simp add: find_table_def)

lemma phased_create_table: "Q () h \<Longrightarrow> phased (create_table n) h Q"
  by (cases h) (simp add: create_table_def)

lemma wp_stack_ops [wp]:
  "cm_safe_by al an af stack_top c h Q \<longleftrightarrow> Q (get_top (client_stack c)) c h"
  "cm_safe_by al an af stack_pop c h Q' \<longleftrightarrow> (case pop (client_stack c) of
     Inl e \<Rightarrow> Q' (Inl e) c h | Inr st \<Rightarrow> Q' (Inr ()) (c\<lparr>client_stack := st\<rparr>) h)"
  by (simp_all add: cm_safe_by_def stack_top_def lift_def stack_pop_def fail_def ret_def split: sum.splits)

text \<open>A table that is locked for a request: by the transaction, or for this request alone.\<close>

definition usable :: "tid \<Rightarrow> conn \<Rightarrow> bool" where
  "usable t c \<longleftrightarrow> transaction_mode c \<longrightarrow> t \<in> set (locked_tables c)"

lemma usable_stack [simp]: "usable t (c\<lparr>client_stack := st\<rparr>) \<longleftrightarrow> usable t c"
  by (simp add: usable_def)

lemma phased_locking:
  assumes "phase_inv c h"
    and "\<And>c'. phase_inv c' h \<Longrightarrow> usable t c' \<Longrightarrow> Q (Inr ()) c' h"
    and "\<And>e. Q (Inl e) c h"
  shows "cm_phased (handle_table_locking t) c h Q"
proof -
  obtain D ph where h: "h = (D, ph)" by (cases h) auto
  let ?c = "c\<lparr>locked_tables := insort_insert t (locked_tables c)\<rparr>"
  have "phase_inv ?c h" "usable t ?c" using assms(1) h by (auto simp: phase_inv_def usable_def set_insort_insert)
  with assms show ?thesis
    unfolding h
    by (auto simp: cm_safe_by_def handle_table_locking_def table_is_locked_def usable_def cm_simps)
qed

lemma phased_autocommit:
  assumes "phase_inv c (D, Active) \<or> \<not> transaction_mode c \<and> D \<subseteq> {t}"
    and Q: "\<And>h. phase_inv c h \<Longrightarrow> Q (Inr ()) c h"
  shows "cm_phased (autocommit t) c (D, Active) Q"
proof (cases "transaction_mode c")
  case True
  with assms show ?thesis by (simp add: cm_safe_by_def autocommit_def cm_simps)
next
  case False
  with assms(1) have D: "D - {t} = {}" by (auto simp: phase_inv_def)
  have "phase_inv c (D - {t}, Committing)" unfolding D by (simp add: phase_inv_def)
  with False Q show ?thesis by (simp add: cm_safe_by_def autocommit_def cm_simps)
qed

lemma phased_commit_each:
  assumes "ph \<noteq> Undoing \<or> D = {}" and "\<And>ph'. Q (Inr ()) c (D - set ts, ph')"
  shows "cm_phased (commit_each ts) c (D, ph) Q"
  using assms
proof (induction ts arbitrary: D ph)
  case (Cons t ts)
  have "D - {t} - set ts = D - set (t # ts)" by auto
  with Cons.IH [of Committing "D - {t}"] Cons.prems show ?case by (simp add: wp)
qed (simp add: wp)

lemma phased_rollback_each:
  assumes "ph \<noteq> Committing \<or> D = {}" and "\<And>ph'. Q (Inr ()) c (D - set ts, ph')"
  shows "cm_phased (rollback_each ts) c (D, ph) Q"
  using assms
proof (induction ts arbitrary: D ph)
  case (Cons t ts)
  have "D - {t} - set ts = D - set (t # ts)" by auto
  with Cons.IH [of Undoing "D - {t}"] Cons.prems show ?case by (simp add: wp)
qed (simp add: wp)

lemma phased_release_all:
  assumes "phase_inv c h" and "\<And>ph b. phase_inv (c\<lparr>locked_tables := [], transaction_mode := b\<rparr>) ({}, ph) \<Longrightarrow> Q (Inr ()) (c\<lparr>locked_tables := []\<rparr>) ({}, ph)"
  shows "cm_phased commit_tables c h Q" and "cm_phased rollback_tables c h Q"
proof -
  obtain D ph where h: "h = (D, ph)" by (cases h) auto
  with assms(1) have D: "D - set (locked_tables c) = {}" "ph = Active \<or> D = {}" by (auto simp: phase_inv_def)
  have Q: "Q (Inr ()) (c\<lparr>locked_tables := []\<rparr>) (D - set (locked_tables c), ph')" for ph'
    unfolding D(1) by (rule assms(2)) (simp add: phase_inv_def)
  have "cm_phased (commit_each (locked_tables c)) c (D, ph) (\<lambda>r c' h'. case r of Inl e \<Rightarrow> Q (Inl e) c' h'
      | Inr x \<Rightarrow> Q (Inr ()) (c'\<lparr>locked_tables := []\<rparr>) h')"
    using D(2) Q by (intro phased_commit_each) auto
  then show "cm_phased commit_tables c h Q"
    unfolding h by (simp add: cm_safe_by_def [of _ _ _ commit_tables] commit_tables_def wp_seq [unfolded cm_safe_by_def]
      cm_safe_by_def modify_def cong: sum.case_cong)
  have "cm_phased (rollback_each (locked_tables c)) c (D, ph) (\<lambda>r c' h'. case r of Inl e \<Rightarrow> Q (Inl e) c' h'
      | Inr x \<Rightarrow> Q (Inr ()) (c'\<lparr>locked_tables := []\<rparr>) h')"
    using D(2) Q by (intro phased_rollback_each) auto
  then show "cm_phased rollback_tables c h Q"
    unfolding h by (simp add: cm_safe_by_def [of _ _ _ rollback_tables] rollback_tables_def wp_seq [unfolded cm_safe_by_def]
      cm_safe_by_def modify_def cong: sum.case_cong)
qed

subsection \<open>The handlers\<close>

abbreviation handled :: "'a cm \<Rightarrow> conn \<Rightarrow> tid set \<times> phase \<Rightarrow> bool" where
  "handled m c h \<equiv> cm_phased m c h (\<lambda>_. phase_inv)"

lemma phased_get:
  assumes "phase_inv c h"
  shows "handled (get_request_handler req) c h"
proof -
  have body: "handled (seq (lift (get_key req)) (\<lambda>key.
           seq (act (Get t key)) (\<lambda>r.
           seq (lift (case r of RStr v \<Rightarrow> v | _ \<Rightarrow> Inr [])) (\<lambda>cur_val.
           seq (stack_push cur_val) (\<lambda>_.
           seq (autocommit t) (\<lambda>_.
           respond OK [])))))) c h" if inv: "phase_inv c h" for t c h
  proof -
    obtain D ph where h: "h = (D, ph)" by (cases h) auto
    have "ph = Active \<or> D = {}" "phase_inv (c\<lparr>client_stack := st\<rparr>) (D, Active)" "phase_inv c (D, Active)" for st
      using inv h by (auto simp: phase_inv_def)
    then show ?thesis
      unfolding h by (auto simp: wp inv [unfolded h] intro!: phased_autocommit split: sum.split reply.split)
  qed
  have rest: "handled (seq (handle_table_locking t) (\<lambda>_.
           seq (lift (get_key req)) (\<lambda>key.
           seq (act (Get t key)) (\<lambda>r.
           seq (lift (case r of RStr v \<Rightarrow> v | _ \<Rightarrow> Inr [])) (\<lambda>cur_val.
           seq (stack_push cur_val) (\<lambda>_.
           seq (autocommit t) (\<lambda>_.
           respond OK []))))))) c h" for t
    unfolding wp_seq [of _ _ _ "handle_table_locking t"]
    using assms by (intro phased_locking) (auto intro!: body)
  have "handled (seq (call (find_table n)) (\<lambda>p. case p of
         None \<Rightarrow> throw (InvalidMessage ''Table not found'')
       | Some t \<Rightarrow> seq (handle_table_locking t) (\<lambda>_.
           seq (lift (get_key req)) (\<lambda>key.
           seq (act (Get t key)) (\<lambda>r.
           seq (lift (case r of RStr v \<Rightarrow> v | _ \<Rightarrow> Inr [])) (\<lambda>cur_val.
           seq (stack_push cur_val) (\<lambda>_.
           seq (autocommit t) (\<lambda>_.
           respond OK [])))))))) c h" for n
    unfolding wp_seq [of _ _ _ "call p" for p] wp_call
    using assms by (intro phased_find_table) (auto simp: wp_throw rest split: option.split)
  with assms show ?thesis
    unfolding get_request_handler_def by (simp add: wp_seq [of _ _ _ "lift r" for r] wp_lift split: sum.split)
qed

lemma phased_set:
  assumes "phase_inv c h"
  shows "handled (set_request_handler req) c h"
proof -
  let ?body = "\<lambda>t. \<lambda>c. if is_empty (client_stack c) then throw (OperationException ''Stack is empty'') c
             else seq stack_top (\<lambda>popped_val.
               seq stack_pop (\<lambda>_.
               seq (lift (get_key req)) (\<lambda>key.
               seq (act (Put t key popped_val)) (\<lambda>_.
               seq (autocommit t) (\<lambda>_.
               respond OK []))))) c"
  have body: "handled (?body t) c h" if inv: "phase_inv c h" and "usable t c" for t c h
  proof -
    obtain D ph where h: "h = (D, ph)" by (cases h) auto
    have "ph = Active \<or> D = {}" using inv h by (auto simp: phase_inv_def)
    moreover have "phase_inv (c\<lparr>client_stack := st\<rparr>) (insert t D, Active) \<or> \<not> transaction_mode c \<and> insert t D \<subseteq> {t}" for st
      using that h by (auto simp: phase_inv_def usable_def)
    ultimately show ?thesis
      unfolding h by (auto simp: wp inv [unfolded h] intro!: phased_autocommit split: sum.split)
  qed
  have rest: "handled (seq (handle_table_locking t) (\<lambda>_ c. ?body t c)) c h" for t
    unfolding wp_seq [of _ _ _ "handle_table_locking t"]
    using assms by (intro phased_locking) (auto intro!: body)
  have "handled (seq (call (find_table n)) (\<lambda>p. case p of
         None \<Rightarrow> throw (InvalidMessage ''Table not found'')
       | Some t \<Rightarrow> seq (handle_table_locking t) (\<lambda>_ c. ?body t c))) c h" for n
    unfolding wp_seq [of _ _ _ "call p" for p] wp_call
    using assms by (intro phased_find_table) (auto simp: wp_throw rest split: option.split)
  with assms show ?thesis
    unfolding set_request_handler_def by (simp add: wp_seq [of _ _ _ "lift r" for r] wp_lift split: sum.split)
qed

lemma phased_create: "phase_inv c h \<Longrightarrow> handled (create_request_handler req) c h"
  unfolding create_request_handler_def
  by (auto simp: wp intro!: phased_find_table phased_create_table split: sum.split)

lemma phased_stack:
  assumes "phase_inv c h"
  shows "handled (push_request_handler req) c h" "handled (pop_request_handler req) c h"
    "handled (top_request_handler req) c h"
  using assms
  by (auto simp: push_request_handler_def pop_request_handler_def [abs_def] top_request_handler_def [abs_def] wp
      split: sum.split)

lemma phased_arithmetic:
  assumes "phase_inv c h"
  shows "handled (arithmetic_request_handler req op) c h"
proof -
  have "handled pop_two_values c h"
    unfolding pop_two_values_def [abs_def] wp_catch_std using assms by (auto simp: wp split: sum.split)
  then show ?thesis
    unfolding arithmetic_request_handler_def wp_seq [of _ _ _ pop_two_values]
    by (rule cm_safe_mono) (auto simp: wp split: sum.split option.split)
qed

lemma handled_ret: "handled m c h \<Longrightarrow> handled (seq m (\<lambda>_. ret x)) c h"
  unfolding wp_seq by (erule cm_safe_mono) (auto simp: wp_ret split: sum.split)

lemma phased_dispatch:
  assumes "phase_inv c h"
  shows "handled (dispatch req) c h"
proof -
  have start: "handled (seq (respond OK []) (\<lambda>_. seq (set_transaction_mode True) (\<lambda>_. ret True))) c h"
    "handled (seq (respond OK []) (\<lambda>_. ret False)) c h"
    using assms by (auto simp: wp phase_inv_def)
  have commit: "handled (seq commit_tables (\<lambda>_. seq (set_transaction_mode False) (\<lambda>_.
      seq (respond OK []) (\<lambda>_. ret True)))) c h"
    unfolding wp_seq [of _ _ _ commit_tables]
    by (rule phased_release_all(1) [OF assms]) (auto simp: wp phase_inv_def)
  have other: "handled (throw (InvalidMessage ''Invalid message sent'')) c h"
    using assms by (simp add: wp)
  show ?thesis
    using assms start commit other
    by (cases "get_message_type req")
      (simp_all add: dispatch_def handled_ret phased_get phased_set phased_create phased_stack phased_arithmetic)
qed

subsection \<open>A round of the loop\<close>

lemma phased_return_response:
  "phase_inv c h \<Longrightarrow> (\<And>r c'. phase_inv c' h \<Longrightarrow> Q r c' h) \<Longrightarrow> cm_phased return_response_to_client c h Q"
  by (auto simp: cm_safe_by_def return_response_to_client_def cm_simps split: sum.split)

lemma phased_finish: "phase_inv c h \<Longrightarrow> handled (finish_iteration k) c h"
  unfolding finish_iteration_def wp_seq by (rule phased_return_response) (auto simp: wp split: sum.split)

lemma phased_reply: "phase_inv c h \<Longrightarrow> handled (seq (respond t as) (\<lambda>_. finish_iteration k)) c h"
  by (simp add: wp_seq wp_respond phased_finish)

lemma phased_catch:
  assumes "phase_inv c h"
  shows "handled (catch_clauses e) c h"
proof -
  have undo: "handled (seq rollback_tables (\<lambda>_. seq (set_transaction_mode False) (\<lambda>_.
          seq (respond FAILED [m]) (\<lambda>_. finish_iteration True)))) c h" for m
    unfolding wp_seq [of _ _ _ rollback_tables]
    by (rule phased_release_all(2) [OF assms])
      (auto simp: wp_seq [of _ _ _ "set_transaction_mode b" for b] wp_set_transaction_mode phase_inv_def intro!: phased_reply)
  have "handled (throw x) c h" "handled (fail e) c h" for x
    using assms by (simp_all add: wp)
  with undo phased_reply [OF assms] show ?thesis
    by (auto simp: cm_safe_by_def catch_clauses_def split: failure.split exn.split)
qed

lemma phased_try:
  assumes "phase_inv c h"
  shows "handled (try_block n buf) c h"
proof -
  have login: "handled (seq (modify (\<lambda>c. c\<lparr>logged_in := True\<rparr>)) (\<lambda>_. seq (respond OK []) (\<lambda>_.
          seq return_response_to_client (\<lambda>_. ret Continue)))) c h"
    using assms by (auto simp: wp intro!: phased_return_response split: sum.split)
  have go: "handled (seq (dispatch req) (\<lambda>k. ret (Proceed k))) c h" for req
    unfolding wp_seq by (rule cm_safe_mono [OF phased_dispatch [OF assms]]) (auto simp: wp_ret split: sum.split)
  show ?thesis
    using assms login go
    by (auto simp: try_block_def wp_seq [of _ _ _ "lift r" for r] wp_lift wp_throw wp_fail wp_if split: sum.split)
qed

lemma chat_iteration_phased:
  assumes "phase_inv c h"
  shows "handled (chat_iteration n buf) c h"
proof -
  have "phased (try_block n buf c) h (\<lambda>x h'. phased (case x of (r, c') \<Rightarrow> (case r of
         Inl e \<Rightarrow> catch_clauses e c'
       | Inr Continue \<Rightarrow> ret True c'
       | Inr (Proceed k) \<Rightarrow> finish_iteration k c')) h' (\<lambda>(r, c'). phase_inv c'))"
    using phased_try [OF assms, of n buf] unfolding cm_safe_by_def
  proof (rule safe_mono, clarify)
    fix r :: "flow result" and c' D ph
    assume "phase_inv c' (D, ph)"
    then show "phased (case r of Inl e \<Rightarrow> catch_clauses e c' | Inr Continue \<Rightarrow> ret True c'
       | Inr (Proceed k) \<Rightarrow> finish_iteration k c') (D, ph) (\<lambda>(r, c'). phase_inv c')"
      using phased_catch [of c' "(D, ph)"] phased_finish [of c' "(D, ph)"]
      by (auto simp: cm_safe_by_def case_prod_beta ret_def split: sum.split flow.split)
  qed
  then show ?thesis unfolding cm_safe_by_def chat_iteration_def safe_bind by (simp add: case_prod_beta)
qed

end
