(* ===== verification/Serializability.thy ===== *)
theory Serializability
  imports Two_Phase Scenarios
begin

section \<open>Transactions are serializable\<close>

text \<open>
  What the threads did to the tables is read off the sequence of events: each thread collects the
  reads (with the values they returned) and writes since its last commit or rollback; the first
  \<open>commit_changes\<close> after them, outside a transaction or at the start of \<open>commit_tables\<close>, closes
  the transaction and puts it at the end of a list, a rollback throws it away. The theorem is
  that this list, executed one transaction after the other, gives the contents of the tables.
  The proof follows a history along with the run: \<open>logical\<close> is what a table will hold when the
  commit that has begun is complete.
\<close>

subsection \<open>Serial execution\<close>

datatype access = Read_value tid string string | Write_value tid string string

type_synonym store = "tid \<Rightarrow> string \<Rightarrow> string"

primrec accessed_table :: "access \<Rightarrow> tid" where
  "accessed_table (Read_value t k v) = t"
| "accessed_table (Write_value t k v) = t"

text \<open>A read has to return the value that is there.\<close>

primrec access_on :: "access \<Rightarrow> store \<Rightarrow> store option" where
  "access_on (Read_value t k v) G = (if G t k = v then Some G else None)"
| "access_on (Write_value t k v) G = Some (G(t := (G t)(k := v)))"

primrec serial :: "access list \<Rightarrow> store \<Rightarrow> store option" where
  "serial [] G = Some G"
| "serial (x # xs) G = Option.bind (access_on x G) (serial xs)"

lemma serial_append: "serial (xs @ ys) G = Option.bind (serial xs G) (serial ys)"
  by (induction xs arbitrary: G) (simp_all split: Option.bind_split)

lemma serial_untouched: "serial xs G = Some G' \<Longrightarrow> t \<notin> accessed_table ` set xs \<Longrightarrow> G' t = G t"
proof (induction xs arbitrary: G)
  case (Cons x xs)
  then obtain G1 where "access_on x G = Some G1" "serial xs G1 = Some G'" by (auto simp: bind_eq_Some_conv)
  moreover from this(1) have "G1 t = G t" using Cons.prems(2) by (cases x) (auto split: if_splits)
  ultimately show ?case using Cons by auto
qed simp

lemma serial_frame:
  "serial xs G = Some G' \<Longrightarrow> (\<And>t. t \<in> T \<Longrightarrow> F t = G t) \<Longrightarrow> accessed_table ` set xs \<subseteq> T \<Longrightarrow>
   \<exists>F'. serial xs F = Some F' \<and> (\<forall>t\<in>T. F' t = G' t)"
proof (induction xs arbitrary: G F)
  case (Cons x xs)
  then obtain G1 where G1: "access_on x G = Some G1" "serial xs G1 = Some G'" by (auto simp: bind_eq_Some_conv)
  have "F (accessed_table x) = G (accessed_table x)" using Cons.prems by simp
  then obtain F1 where F1: "access_on x F = Some F1" "\<And>t. t \<in> T \<Longrightarrow> F1 t = G1 t"
    using G1(1) Cons.prems(2) by (cases x) (auto split: if_splits)
  from Cons.IH [OF G1(2) F1(2)] Cons.prems(3) F1(1) show ?case by simp
qed simp

subsection \<open>The history of a run\<close>

record history =
  closed_txs :: "(cid \<times> access list) list"
  open_tx :: "cid \<Rightarrow> access list"
  phase_of :: "cid \<Rightarrow> phase"

fun accesses :: "action \<Rightarrow> reply \<Rightarrow> access list" where
  "accesses (Get t k) (RStr (Inr v)) = [Read_value t k v]"
| "accesses (Put t k v) r = [Write_value t k v]"
| "accesses _ r = []"

fun closes :: "action \<Rightarrow> bool" where
  "closes (Commit t) \<longleftrightarrow> True"
| "closes (Rollback t) \<longleftrightarrow> True"
| "closes _ \<longleftrightarrow> False"

fun log_event :: "event \<Rightarrow> history \<Rightarrow> history" where
  "log_event Internal h = h"
| "log_event (Acted i a r) h =
     \<lparr>closed_txs = closed_txs h @
        (if next_phase a (phase_of h i) = Committing \<and> phase_of h i \<noteq> Committing then [(i, open_tx h i)] else []),
      open_tx = (open_tx h)(i := if closes a then [] else open_tx h i @ accesses a r),
      phase_of = (phase_of h)(i := next_phase a (phase_of h i))\<rparr>"

definition history_of :: "event list \<Rightarrow> history" where
  "history_of tr = fold log_event tr \<lparr>closed_txs = [], open_tx = (\<lambda>_. []), phase_of = (\<lambda>_. Active)\<rparr>"

text \<open>The committed transactions of a run, in the order of their commits.\<close>

definition transactions :: "event list \<Rightarrow> (cid \<times> access list) list" where
  "transactions tr = closed_txs (history_of tr)"

definition logical :: "history \<Rightarrow> table \<Rightarrow> string \<Rightarrow> string" where
  "logical h tb =
     (case m_mutex tb of
        None \<Rightarrow> committed tb
      | Some i \<Rightarrow> if phase_of h i = Committing then overlay (committed tb) (pending tb) else committed tb)"

definition lstore :: "server \<Rightarrow> history \<Rightarrow> store" where
  "lstore sh h t = (case heap sh t of None \<Rightarrow> (\<lambda>_. []) | Some tb \<Rightarrow> logical h tb)"

definition owned :: "cid \<Rightarrow> server \<Rightarrow> tid \<Rightarrow> table \<Rightarrow> bool" where
  "owned i sh t tb \<longleftrightarrow> heap sh t = Some tb \<and> m_mutex tb = Some i"

definition open_ok :: "server \<Rightarrow> history \<Rightarrow> cid \<Rightarrow> bool" where
  "open_ok sh h i \<longleftrightarrow>
     (\<forall>t\<in>accessed_table ` set (open_tx h i). \<exists>tb. owned i sh t tb) \<and>
     (phase_of h i \<noteq> Active \<longrightarrow> open_tx h i = []) \<and>
     (\<exists>G. serial (open_tx h i) (lstore sh h) = Some G \<and>
       (phase_of h i = Active \<longrightarrow> (\<forall>t tb. owned i sh t tb \<longrightarrow> G t = overlay (committed tb) (pending tb))))"

definition serializes :: "server \<Rightarrow> history \<Rightarrow> bool" where
  "serializes sh h \<longleftrightarrow>
     serial (concat (map snd (closed_txs h))) (\<lambda>_ _. []) = Some (lstore sh h) \<and> (\<forall>i. open_ok sh h i)"

lemma log_event_sels [simp]:
  "j \<noteq> i \<Longrightarrow> open_tx (log_event (Acted i a r) h) j = open_tx h j"
  "j \<noteq> i \<Longrightarrow> phase_of (log_event (Acted i a r) h) j = phase_of h j"
  "phase_of (log_event (Acted i a r) h) i = next_phase a (phase_of h i)"
  by simp_all

declare log_event.simps(2) [simp del]

subsection \<open>The other threads\<close>

lemma open_ok_frame:
  assumes "open_ok sh h j" and "open_tx h' j = open_tx h j" and "phase_of h' j = phase_of h j"
    and own: "\<And>t tb. owned j sh' t tb \<longleftrightarrow> owned j sh t tb"
  shows "open_ok sh' h' j"
proof -
  let ?T = "{t. \<exists>tb. owned j sh t tb}"
  obtain G where G: "serial (open_tx h j) (lstore sh h) = Some G"
    "phase_of h j = Active \<Longrightarrow> \<forall>t tb. owned j sh t tb \<longrightarrow> G t = overlay (committed tb) (pending tb)"
    using assms(1) by (auto simp: open_ok_def)
  have sub: "accessed_table ` set (open_tx h j) \<subseteq> ?T" using assms(1) by (auto simp: open_ok_def)
  have "lstore sh' h' t = lstore sh h t" if "t \<in> ?T" for t
  proof -
    from that obtain tb where "owned j sh t tb" "owned j sh' t tb" using own by blast
    with assms(3) show ?thesis by (simp add: owned_def lstore_def logical_def)
  qed
  from serial_frame [OF G(1) this sub] obtain G' where
    "serial (open_tx h j) (lstore sh' h') = Some G'" "\<And>t. t \<in> ?T \<Longrightarrow> G' t = G t" by blast
  with G(2) assms(1-3) show ?thesis unfolding open_ok_def own by fastforce
qed

lemma owned_other:
  assumes "server_inv sh" and "agrees i sh g" and "allowed a g" and "exec i a sh = Next r sh'" and "j \<noteq> i"
  shows "owned j sh' t tb \<longleftrightarrow> owned j sh t tb"
proof -
  have keep: "owned j sh' t tb'" if "owned j sh t tb'" for tb'
  proof -
    have "own_op j t (Acted i a r) = []" using assms(5) by (cases a) auto
    with exec_held_table [OF assms(2,3,4,1), of t tb' j] that assms(5) show ?thesis by (simp add: owned_def)
  qed
  show ?thesis
  proof
    assume o: "owned j sh' t tb"
    then have "Table_lock t \<in> holds j sh'" by (simp add: owned_def holds_def)
    then have "Table_lock t \<in> holds j sh" using exec_other(1) [OF assms] by simp
    then obtain tb' where "owned j sh t tb'" by (auto simp: owned_def holds_def split: option.splits)
    with keep o show "owned j sh t tb" by (fastforce simp: owned_def)
  qed (rule keep)
qed

subsection \<open>The acting thread\<close>

text \<open>What thread \<open>i\<close> sees: its open transaction on top of the logical store.\<close>

lemma current_view:
  assumes "open_ok sh h i" and "phase_of h i = Active \<or> changed i sh = {}"
  obtains G where "serial (open_tx h i) (lstore sh h) = Some G"
    "\<forall>t tb. owned i sh t tb \<longrightarrow> G t = overlay (committed tb) (pending tb)"
    "\<forall>t. (\<nexists>tb. owned i sh t tb) \<longrightarrow> G t = lstore sh h t"
proof -
  from assms(1) obtain G where G: "serial (open_tx h i) (lstore sh h) = Some G"
    and act: "phase_of h i = Active \<Longrightarrow> \<forall>t tb. owned i sh t tb \<longrightarrow> G t = overlay (committed tb) (pending tb)"
    and sub: "\<forall>t\<in>accessed_table ` set (open_tx h i). \<exists>tb. owned i sh t tb"
    and em: "phase_of h i \<noteq> Active \<Longrightarrow> open_tx h i = []"
    by (auto simp: open_ok_def)
  have "G t = overlay (committed tb) (pending tb)" if o: "owned i sh t tb" for t tb
  proof (cases "phase_of h i = Active")
    case False
    with G em have "G = lstore sh h" by simp
    moreover have "pending tb = Map.empty"
      using assms(2) False o by (auto simp: owned_def changed_def)
    ultimately show ?thesis using o by (simp add: lstore_def owned_def logical_def)
  qed (use act o in blast)
  moreover have "G t = lstore sh h t" if "\<nexists>tb. owned i sh t tb" for t
    using serial_untouched [OF G, of t] sub that by blast
  ultimately show thesis using G that by blast
qed

text \<open>An action that is no commit point leaves the logical store as it is.\<close>

lemma serializes_same:
  assumes "serializes sh h" and "closed_txs h' = closed_txs h" and "lstore sh' h' = lstore sh h"
    and "\<And>j. open_ok sh' h' j"
  shows "serializes sh' h'"
  using assms by (simp add: serializes_def)

lemma lstore_heap_upd:
  assumes "heap sh t = Some tb" and "logical h' tb' = logical h tb"
    and "\<And>u tb. u \<noteq> t \<Longrightarrow> heap sh u = Some tb \<Longrightarrow> logical h' tb = logical h tb"
  shows "lstore (sh\<lparr>heap := (heap sh)(t \<mapsto> tb')\<rparr>) h' = lstore sh h"
  using assms by (auto simp: lstore_def fun_eq_iff split: option.split)

text \<open>A change of phase is not seen where nothing is pending.\<close>

lemma logical_phase:
  assumes "\<And>j. j \<noteq> i \<Longrightarrow> phase_of h' j = phase_of h j"
    and "m_mutex tb = Some i \<Longrightarrow> pending tb = Map.empty \<or> (phase_of h' i = Committing \<longleftrightarrow> phase_of h i = Committing)"
  shows "logical h' tb = logical h tb"
  using assms by (cases "m_mutex tb = Some i") (auto simp: logical_def split: option.split)

lemma log_neutral:
  assumes "next_phase a (phase_of h i) = phase_of h i" and "\<not> closes a" and "accesses a r = []"
  shows "log_event (Acted i a r) h = h"
  using assms by (simp add: log_event.simps(2) fun_upd_idem)

lemma owned_heap_upd:
  "owned i (sh\<lparr>heap := (heap sh)(t \<mapsto> tb)\<rparr>) u ub \<longleftrightarrow>
   (if u = t then ub = tb \<and> m_mutex tb = Some i else owned i sh u ub)"
  by (auto simp: owned_def)

text \<open>Reading and writing.\<close>

lemma access_serializes:
  assumes ser: "serializes sh h" and own: "owned i sh t tb" and ph: "phase_of h i = Active \<or> changed i sh = {}"
    and others: "\<And>j. j \<noteq> i \<Longrightarrow> open_ok (sh\<lparr>heap := (heap sh)(t \<mapsto> tb')\<rparr>) h' j"
    and tb': "m_mutex tb' = Some i" "committed tb' = committed tb"
    and x: "accessed_table x = t"
      "\<And>G. G t = overlay (committed tb) (pending tb) \<Longrightarrow>
        access_on x G = Some (G(t := overlay (committed tb') (pending tb')))"
    and h': "closed_txs h' = closed_txs h" "open_tx h' i = open_tx h i @ [x]"
      "\<And>j. phase_of h' j = (if j = i then Active else phase_of h j)"
  shows "serializes (sh\<lparr>heap := (heap sh)(t \<mapsto> tb')\<rparr>) h'"
proof -
  let ?sh = "sh\<lparr>heap := (heap sh)(t \<mapsto> tb')\<rparr>"
  have ok: "open_ok sh h i" using ser by (simp add: serializes_def)
  have clean: "pending ub = Map.empty" if "owned i sh u ub" "phase_of h i = Committing" for u ub
    using ph that by (auto simp: owned_def changed_def)
  have "logical h' tb' = logical h tb"
    using clean [OF own] own tb' by (simp add: logical_def h' owned_def)
  moreover have "logical h' ub = logical h ub" if "heap sh u = Some ub" for u ub
    by (rule logical_phase [of i]) (use clean [of u ub] that in \<open>auto simp: h' owned_def\<close>)
  ultimately have S: "lstore ?sh h' = lstore sh h"
    using own by (intro lstore_heap_upd) (auto simp: owned_def)
  obtain G where G: "serial (open_tx h i) (lstore sh h) = Some G"
    "\<forall>t tb. owned i sh t tb \<longrightarrow> G t = overlay (committed tb) (pending tb)"
    "\<forall>t. (\<nexists>tb. owned i sh t tb) \<longrightarrow> G t = lstore sh h t"
    by (rule current_view [OF ok ph])
  note G = G(1) G(2,3) [rule_format]
  let ?G = "G(t := overlay (committed tb') (pending tb'))"
  have "serial (open_tx h' i) (lstore ?sh h') = Some ?G"
    using G(1) x(2) [of G] G(2) [OF own] by (simp add: S h'(2) serial_append)
  moreover have "\<exists>ub. owned i ?sh u ub" if "u \<in> accessed_table ` set (open_tx h' i)" for u
  proof -
    have "u = t \<or> u \<in> accessed_table ` set (open_tx h i)" using that x(1) h'(2) by auto
    then show ?thesis using ok tb'(1) by (auto simp: open_ok_def owned_heap_upd)
  qed
  moreover have "?G u = overlay (committed ub) (pending ub)" if "owned i ?sh u ub" for u ub
    using that G(2) [of u ub] by (auto simp: owned_heap_upd split: if_splits)
  ultimately have "open_ok ?sh h' i" unfolding open_ok_def by (simp add: h'(3))
  with others have "open_ok ?sh h' j" for j by (cases "j = i") auto
  then show ?thesis by (rule serializes_same [OF ser h'(1) S])
qed

text \<open>Locking, unlocking and undoing do not change what is committed.\<close>

lemma quiet_serializes:
  assumes ser: "serializes sh h" and tb: "heap sh t = Some tb" and c: "committed tb' = committed tb"
    and others: "\<And>j. j \<noteq> i \<Longrightarrow> open_ok (sh\<lparr>heap := (heap sh)(t \<mapsto> tb')\<rparr>) h' j"
    and own: "open_ok (sh\<lparr>heap := (heap sh)(t \<mapsto> tb')\<rparr>) h' i"
    and mutex: "m_mutex tb = None \<or> m_mutex tb = Some i" "m_mutex tb' = None \<or> m_mutex tb' = Some i"
    and clean: "phase_of h i = Committing \<or> phase_of h' i = Committing \<Longrightarrow> pending tb = Map.empty \<and> pending tb' = Map.empty"
    and rest: "\<And>u ub. owned i sh u ub \<Longrightarrow> phase_of h i = Committing \<longleftrightarrow> phase_of h' i \<noteq> Committing \<Longrightarrow> pending ub = Map.empty"
    and h': "closed_txs h' = closed_txs h" "\<And>j. j \<noteq> i \<Longrightarrow> phase_of h' j = phase_of h j"
  shows "serializes (sh\<lparr>heap := (heap sh)(t \<mapsto> tb')\<rparr>) h'"
proof (rule serializes_same [OF ser h'(1)])
  have "logical h' tb' = logical h tb"
    using c mutex clean by (auto simp: logical_def split: option.split)
  moreover have "logical h' ub = logical h ub" if "heap sh u = Some ub" for u ub
    by (rule logical_phase [of i]) (use rest [of u ub] that in \<open>auto simp: h' owned_def\<close>)
  ultimately show "lstore (sh\<lparr>heap := (heap sh)(t \<mapsto> tb')\<rparr>) h' = lstore sh h"
    by (intro lstore_heap_upd [OF tb]) auto
  show "open_ok (sh\<lparr>heap := (heap sh)(t \<mapsto> tb')\<rparr>) h' j" for j
    using others own by (cases "j = i") auto
qed

text \<open>Nothing is open after a commit or a rollback.\<close>

lemma open_ok_empty: "open_tx h i = [] \<Longrightarrow> phase_of h i \<noteq> Active \<Longrightarrow> open_ok sh h i"
  by (simp add: open_ok_def)

lemma commit_serializes:
  assumes ser: "serializes sh h" and own: "owned i sh t tb" and ph: "phase_of h i \<noteq> Undoing \<or> changed i sh = {}"
    and others: "\<And>j. j \<noteq> i \<Longrightarrow> open_ok (sh\<lparr>heap := (heap sh)(t \<mapsto> commit_changes tb)\<rparr>) h' j"
    and h': "h' = log_event (Acted i (Commit t) r) h"
  shows "serializes (sh\<lparr>heap := (heap sh)(t \<mapsto> commit_changes tb)\<rparr>) h'"
proof -
  let ?sh = "sh\<lparr>heap := (heap sh)(t \<mapsto> commit_changes tb)\<rparr>"
  have sels: "phase_of h' i = Committing" "open_tx h' i = []" "\<And>j. j \<noteq> i \<Longrightarrow> phase_of h' j = phase_of h j"
    "closed_txs h' = closed_txs h @ (if phase_of h i \<noteq> Committing then [(i, open_tx h i)] else [])"
    by (simp_all add: h' log_event.simps(2))
  have ok: "open_ok sh h i" and all: "serial (concat (map snd (closed_txs h))) (\<lambda>_ _. []) = Some (lstore sh h)"
    using ser by (simp_all add: serializes_def)
  have oks: "open_ok ?sh h' j" for j
    using others open_ok_empty [OF sels(2)] sels(1) by (cases "j = i") auto
  have tb: "heap sh t = Some tb" "m_mutex tb = Some i" using own by (simp_all add: owned_def)
  have unowned: "logical h' ub = logical h ub" if "heap sh u = Some ub" "m_mutex ub \<noteq> Some i" for u ub
    using that sels(3) by (auto simp: logical_def split: option.split)
  show ?thesis
  proof (cases "phase_of h i = Committing")
    case True
    have "logical h' ub = logical h ub" if "heap sh u = Some ub" for u ub
      by (rule logical_phase [of i]) (simp_all add: sels True)
    moreover have "logical h' (commit_changes tb) = logical h tb"
      using tb True sels(1) by (simp add: logical_def)
    ultimately have "lstore ?sh h' = lstore sh h" by (intro lstore_heap_upd [OF tb(1)]) auto
    with True sels(4) oks show ?thesis by (intro serializes_same [OF ser]) simp_all
  next
    case False
    then have "phase_of h i = Active \<or> changed i sh = {}" using ph by (cases "phase_of h i") auto
    then obtain G where G: "serial (open_tx h i) (lstore sh h) = Some G"
      "\<forall>t tb. owned i sh t tb \<longrightarrow> G t = overlay (committed tb) (pending tb)"
      "\<forall>t. (\<nexists>tb. owned i sh t tb) \<longrightarrow> G t = lstore sh h t"
      by (rule current_view [OF ok])
    note G = G(1) G(2,3) [rule_format]
    have "lstore ?sh h' u = G u" for u
    proof (cases "\<exists>ub. owned i sh u ub")
      case True
      then obtain ub where "owned i sh u ub" by blast
      with G(2) [OF this] tb sels(1) show ?thesis by (auto simp: lstore_def owned_def logical_def)
    next
      case no: False
      with G(3) own have "G u = lstore sh h u" "u \<noteq> t" by auto
      with no unowned show ?thesis by (auto simp: lstore_def owned_def split: option.split)
    qed
    then have "lstore ?sh h' = G" by (rule ext)
    with all G(1) oks False sels(4) show ?thesis by (simp add: serializes_def serial_append)
  qed
qed

lemma rollback_serializes:
  assumes ser: "serializes sh h" and own: "owned i sh t tb" and ph: "phase_of h i \<noteq> Committing \<or> changed i sh = {}"
    and others: "\<And>j. j \<noteq> i \<Longrightarrow> open_ok (sh\<lparr>heap := (heap sh)(t \<mapsto> rollback_changes tb)\<rparr>) h' j"
    and h': "h' = log_event (Acted i (Rollback t) r) h"
  shows "serializes (sh\<lparr>heap := (heap sh)(t \<mapsto> rollback_changes tb)\<rparr>) h'"
proof (rule quiet_serializes [where i = i, OF ser _ _ others])
  have sels: "phase_of h' i = Undoing" "open_tx h' i = []" "closed_txs h' = closed_txs h"
    by (simp_all add: h' log_event.simps(2))
  then show "open_ok (sh\<lparr>heap := (heap sh)(t \<mapsto> rollback_changes tb)\<rparr>) h' i" by (intro open_ok_empty) simp_all
  have clean: "pending ub = Map.empty" if "owned i sh u ub" "phase_of h i = Committing" for u ub
    using ph that by (auto simp: owned_def changed_def)
  show "phase_of h i = Committing \<or> phase_of h' i = Committing \<Longrightarrow>
      pending tb = Map.empty \<and> pending (rollback_changes tb) = Map.empty"
    using clean [OF own] sels(1) by auto
  show "owned i sh u ub \<Longrightarrow> phase_of h i = Committing \<longleftrightarrow> phase_of h' i \<noteq> Committing \<Longrightarrow> pending ub = Map.empty" for u ub
    using clean [of u ub] sels(1) by auto
qed (use own in \<open>simp_all add: owned_def h' log_event.simps(2)\<close>)

lemma lock_serializes:
  assumes ser: "serializes sh h" and tb: "heap sh t = Some tb" "m_mutex tb = None" "pending tb = Map.empty"
    and others: "\<And>j. j \<noteq> i \<Longrightarrow> open_ok (sh\<lparr>heap := (heap sh)(t \<mapsto> tb\<lparr>m_mutex := Some i\<rparr>)\<rparr>) h j"
  shows "serializes (sh\<lparr>heap := (heap sh)(t \<mapsto> tb\<lparr>m_mutex := Some i\<rparr>)\<rparr>) h"
proof (rule quiet_serializes [where i = i, OF ser tb(1) _ others])
  let ?sh = "sh\<lparr>heap := (heap sh)(t \<mapsto> tb\<lparr>m_mutex := Some i\<rparr>)\<rparr>"
  have ok: "open_ok sh h i" using ser by (simp add: serializes_def)
  have "logical h (tb\<lparr>m_mutex := Some i\<rparr>) = logical h tb" using tb by (simp add: logical_def)
  then have S: "lstore ?sh h = lstore sh h" by (intro lstore_heap_upd [OF tb(1)]) auto
  show "open_ok ?sh h i"
  proof (cases "phase_of h i = Active")
    case False
    with ok show ?thesis by (intro open_ok_empty) (auto simp: open_ok_def)
  next
    case True
    then obtain G where G: "serial (open_tx h i) (lstore sh h) = Some G"
      "\<forall>t tb. owned i sh t tb \<longrightarrow> G t = overlay (committed tb) (pending tb)"
      "\<forall>t. (\<nexists>tb. owned i sh t tb) \<longrightarrow> G t = lstore sh h t"
      using current_view [OF ok] by metis
    note G = G(1) G(2,3) [rule_format]
    have "\<nexists>ub. owned i sh t ub" using tb by (simp add: owned_def)
    then have "G t = committed tb" using G(3) [of t] tb by (simp add: owned_def lstore_def logical_def)
    then have "G u = overlay (committed ub) (pending ub)" if "owned i ?sh u ub" for u ub
      using that G(2) [of u ub] tb(3) by (auto simp: owned_heap_upd split: if_splits)
    moreover have "\<exists>ub. owned i ?sh u ub" if "u \<in> accessed_table ` set (open_tx h i)" for u
      using ok that tb by (auto simp: open_ok_def owned_heap_upd)
    ultimately show ?thesis using G(1) True by (simp add: open_ok_def S)
  qed
qed (use tb in auto)

lemma unlock_serializes:
  assumes ser: "serializes sh h" and own: "owned i sh t tb" "pending tb = Map.empty" and ph: "phase_of h i \<noteq> Active"
    and others: "\<And>j. j \<noteq> i \<Longrightarrow> open_ok (sh\<lparr>heap := (heap sh)(t \<mapsto> table_unlock tb)\<rparr>) h j"
  shows "serializes (sh\<lparr>heap := (heap sh)(t \<mapsto> table_unlock tb)\<rparr>) h"
proof (rule quiet_serializes [where i = i, OF ser _ _ others])
  have "open_ok sh h i" using ser by (simp add: serializes_def)
  with ph show "open_ok (sh\<lparr>heap := (heap sh)(t \<mapsto> table_unlock tb)\<rparr>) h i"
    by (intro open_ok_empty) (simp_all add: open_ok_def)
qed (use own in \<open>auto simp: owned_def\<close>)

subsection \<open>Every action\<close>

lemma changed_after:
  assumes "server_inv sh" and "exec i a sh = Next r sh'" and "changed i sh \<subseteq> D"
  shows "changed i sh' \<subseteq> fst (phase_after a r (D, ph))"
proof -
  have fresh: "heap sh (next_addr sh) = None" using assms(1) by (simp add: server_inv_def)
  note sh = server_inv_table(2) [OF assms(1)]
  have old: "t \<in> D" if "heap sh t = Some tb" "m_mutex tb = Some i" "pending tb \<noteq> Map.empty" for t tb
    using assms(3) that by (auto simp: changed_def)
  note upd = changed_heap_upd changed_new_table mem_changed
  show ?thesis
  proof (cases a)
    case (Get t k)
    with assms(2) obtain tb where "heap sh t = Some tb" "sh' = sh\<lparr>heap := (heap sh)(t \<mapsto> snd (table_get k tb))\<rparr>"
      by (auto simp: exec_Get simp del: exec.simps)
    with Get assms(3) old show ?thesis by (auto simp: upd)
  qed (use assms(2,3) sh fresh old in \<open>auto simp: exec_defs on_table_Next upd split: option.splits if_splits\<close>)
qed

lemma exec_serializes:
  assumes inv: "server_inv sh" and ag: "agrees i sh (H, K, C, L)" and al: "allowed a (H, K, C, L)"
    and ex: "exec i a sh = Next r sh'" and pa: "phase_allowed a (D, phase_of h i)" and D: "changed i sh \<subseteq> D"
    and ser: "serializes sh h"
  shows "serializes sh' (log_event (Acted i a r) h)"
proof -
  let ?h = "log_event (Acted i a r) h"
  have ok: "open_ok sh h j" for j using ser by (simp add: serializes_def)
  have others: "open_ok sh' ?h j" if "j \<noteq> i" for j
    by (rule open_ok_frame [OF ok]) (use owned_other [OF inv ag al ex that] that in simp_all)
  have held: "owned i sh t tb" if "Table_lock t \<in> H" "heap sh t = Some tb" for t tb
    using that ag by (auto simp: agrees_def holds_def owned_def)
  have sound: "server_inv sh'" using exec_sound [OF inv ag al ex] by simp
  have same: "serializes sh' ?h" if "lstore sh' ?h = lstore sh h" "?h = h"
    "\<And>t tb. owned i sh' t tb \<longleftrightarrow> owned i sh t tb"
  proof (rule serializes_same [OF ser _ that(1)])
    show "open_ok sh' ?h j" for j
      using others that open_ok_frame [OF ok [of i], of ?h sh'] by (cases "j = i") auto
  qed (simp add: that(2))
  show ?thesis
  proof (cases a)
    case (Get t k)
    with ex al held obtain tb where tb: "owned i sh t tb" "r = RStr (Inr (overlay (committed tb) (pending tb) k))"
      "sh' = sh\<lparr>heap := (heap sh)(t \<mapsto> snd (table_get k tb))\<rparr>"
      by (auto simp: exec_Get table_get_result simp del: exec.simps)
    have "phase_of h i = Active \<or> changed i sh = {}" using pa D Get by auto
    from access_serializes [OF ser tb(1) this others [unfolded tb(3)], of "Read_value t k (overlay (committed tb) (pending tb) k)"]
    show ?thesis using tb Get by (auto simp: owned_def log_event.simps(2) fun_upd_idem)
  next
    case (Put t k v)
    with ex al held obtain tb where tb: "owned i sh t tb" "sh' = sh\<lparr>heap := (heap sh)(t \<mapsto> table_set k v tb)\<rparr>"
      by (auto simp: on_table_Next)
    have "phase_of h i = Active \<or> changed i sh = {}" using pa D Put by auto
    from access_serializes [OF ser tb(1) this others [unfolded tb(2)], of "Write_value t k v"]
    show ?thesis using tb Put by (auto simp: owned_def log_event.simps(2) overlay_upd)
  next
    case (Commit t)
    with ex al held obtain tb where tb: "owned i sh t tb" "sh' = sh\<lparr>heap := (heap sh)(t \<mapsto> commit_changes tb)\<rparr>"
      by (auto simp: on_table_Next)
    have "phase_of h i \<noteq> Undoing \<or> changed i sh = {}" using pa D Commit by auto
    from commit_serializes [OF ser tb(1) this others [unfolded tb(2)]] show ?thesis using Commit tb(2) by simp
  next
    case (Rollback t)
    with ex al held obtain tb where tb: "owned i sh t tb" "sh' = sh\<lparr>heap := (heap sh)(t \<mapsto> rollback_changes tb)\<rparr>"
      by (auto simp: on_table_Next)
    have "phase_of h i \<noteq> Committing \<or> changed i sh = {}" using pa D Rollback by auto
    from rollback_serializes [OF ser tb(1) this others [unfolded tb(2)]] show ?thesis using Rollback tb(2) by simp
  next
    case (Lock_table t)
    have h: "?h = h" unfolding Lock_table by (rule log_neutral) simp_all
    from Lock_table ex obtain tb where tb: "heap sh t = Some tb" "m_mutex tb = None"
      "sh' = sh\<lparr>heap := (heap sh)(t \<mapsto> tb\<lparr>m_mutex := Some i\<rparr>)\<rparr>"
      by (auto simp: exec_defs split: option.splits)
    from lock_serializes [OF ser tb(1,2) server_inv_table(2) [OF inv tb(1,2)] others [unfolded h tb(3)]]
    show ?thesis unfolding h tb(3) .
  next
    case (Trylock_table t)
    have h: "?h = h" unfolding Trylock_table by (rule log_neutral) simp_all
    from Trylock_table ex obtain tb where tb: "heap sh t = Some tb"
      "sh' = sh\<lparr>heap := (heap sh)(t \<mapsto> if m_mutex tb = None then tb\<lparr>m_mutex := Some i\<rparr> else tb)\<rparr>"
      by (auto simp: exec_defs on_table_Next split: if_splits)
    show ?thesis
    proof (cases "m_mutex tb = None")
      case True
      with tb(2) have s: "sh' = sh\<lparr>heap := (heap sh)(t \<mapsto> tb\<lparr>m_mutex := Some i\<rparr>)\<rparr>" by simp
      from lock_serializes [OF ser tb(1) True server_inv_table(2) [OF inv tb(1) True] others [unfolded h s]]
      show ?thesis unfolding h s .
    next
      case False
      with tb have "sh' = sh" by (simp add: fun_upd_idem)
      with ser h show ?thesis by simp
    qed
  next
    case (Unlock_table t)
    have h: "?h = h" unfolding Unlock_table by (rule log_neutral) simp_all
    from Unlock_table ex al held obtain tb where tb: "owned i sh t tb" "sh' = sh\<lparr>heap := (heap sh)(t \<mapsto> table_unlock tb)\<rparr>"
      by (auto simp: on_table_Next)
    have "pending (table_unlock tb) = Map.empty"
      using server_inv_table(2) [OF sound, of t] tb(2) by simp
    then have "pending tb = Map.empty" by simp
    moreover have "phase_of h i \<noteq> Active" using pa Unlock_table by simp
    ultimately show ?thesis
      using unlock_serializes [OF ser tb(1) _ _ others [unfolded h tb(2)]] unfolding h tb(2) by blast
  next
    case Lock_tables
    have "?h = h" unfolding Lock_tables by (rule log_neutral) simp_all
    with Lock_tables ex show ?thesis by (intro same) (auto simp: lstore_def owned_def fun_eq_iff split: option.splits)
  next
    case Unlock_tables
    have "?h = h" unfolding Unlock_tables by (rule log_neutral) simp_all
    with Unlock_tables ex show ?thesis by (intro same) (auto simp: lstore_def owned_def fun_eq_iff)
  next
    case (Find_name n)
    have "?h = h" unfolding Find_name by (rule log_neutral) simp_all
    with Find_name ex show ?thesis by (intro same) auto
  next
    case (New_table n)
    have "heap sh (next_addr sh) = None" using inv by (simp add: server_inv_def)
    moreover have "?h = h" unfolding New_table by (rule log_neutral) simp_all
    ultimately show ?thesis
      using New_table ex by (intro same) (auto simp: lstore_def owned_def logical_def fun_eq_iff split: if_splits)
  qed
qed

subsection \<open>Every run\<close>

fun thread_phased :: "thread option \<Rightarrow> tid set \<times> phase \<Rightarrow> bool" where
  "thread_phased None h \<longleftrightarrow> fst h = {}"
| "thread_phased (Some (Reading c)) h \<longleftrightarrow> phase_inv c h"
| "thread_phased (Some (Working p)) h \<longleftrightarrow> phased p h (\<lambda>(r, c). phase_inv c)"
| "thread_phased (Some (Closed c)) h \<longleftrightarrow> True"

definition in_step :: "system \<Rightarrow> history \<Rightarrow> cid \<Rightarrow> bool" where
  "in_step s h i \<longleftrightarrow> (\<exists>D. changed i (shared s) \<subseteq> D \<and> thread_phased (threads s i) (D, phase_of h i))"

definition recorded :: "system \<Rightarrow> history \<Rightarrow> bool" where
  "recorded s h \<longleftrightarrow> serializes (shared s) h \<and> (\<forall>i. in_step s h i)"

lemma phase_inv_start [simp]: "phase_inv c ({}, ph)"
  by (simp add: phase_inv_def)

lemma chat_round_phased:
  assumes "phase_inv c h" and "chat_round c = Some p"
  shows "phased p h (\<lambda>(r, c). phase_inv c)"
proof -
  from assms(2) obtain n buf rp ins where "p = chat_iteration n buf (c\<lparr>m_fdbuf := rp, input := ins\<rparr>)"
    by (auto simp: chat_round_def split: option.splits)
  with assms(1) chat_iteration_phased show ?thesis by (auto simp: cm_safe_by_def)
qed

lemma advance_internal:
  assumes "advance i s = Some (Internal, s')" and "in_step s h i"
  shows "shared s' = shared s \<and> in_step s' h i \<and> (\<forall>j. j \<noteq> i \<longrightarrow> threads s' j = threads s j)"
proof -
  obtain D where D: "changed i (shared s) \<subseteq> D" "thread_phased (threads s i) (D, phase_of h i)"
    using assms(2) by (auto simp: in_step_def)
  from assms(1) consider (read) c p where "threads s i = Some (Reading c)" "chat_round c = Some p"
      "s' = s\<lparr>threads := (threads s)(i \<mapsto> Working p)\<rparr>"
    | (working) p where "threads s i = Some (Working p)" "work i p s = Some (Internal, s')"
    by (auto simp: advance_def split: option.splits thread.splits)
  then show ?thesis
  proof cases
    case read
    have "phased p (D, phase_of h i) (\<lambda>(r, c). phase_inv c)"
      using chat_round_phased [OF _ read(2)] D(2) read(1) by simp
    with read D(1) show ?thesis unfolding in_step_def by (intro conjI exI [of _ D]) simp_all
  next
    case working
    then consider (same) "shared s' = shared s" "threads s' = threads s"
      | (ret) c k where "p = Ret (Inr k, c)" "shared s' = shared s"
          "threads s' = (threads s)(i \<mapsto> if k then Reading c else Closed c)"
      by (cases p) (auto split: outcome.splits sum.splits)
    then show ?thesis
    proof cases
      case same
      with assms(2) show ?thesis by (simp add: in_step_def)
    next
      case ret
      with D(2) working(1) have "thread_phased (threads s' i) (D, phase_of h i)" by simp
      with D(1) ret show ?thesis by (auto simp: in_step_def)
    qed
  qed
qed

lemma advance_acted:
  assumes "advance i s = Some (Acted j a r, s')"
  obtains k where "threads s i = Some (Working (Act a k))" "exec i a (shared s) = Next r (shared s')"
    "threads s' = (threads s)(i \<mapsto> Working (k r))" "j = i"
proof -
  from assms obtain p where p: "threads s i = Some (Working p)" "work i p s = Some (Acted j a r, s')"
    by (auto simp: advance_def split: option.splits thread.splits)
  then obtain b k where "p = Act b k" by (cases p) (auto split: sum.splits)
  with p show thesis by (intro that [of k]) (auto split: outcome.splits)
qed

lemma step_recorded:
  assumes inv: "sys_inv s" and st: "step s e s'" and rec: "recorded s h"
  shows "recorded s' (log_event e h)"
  using st
proof (cases rule: step_cases)
  case (accept j fd create client)
  have shared: "shared s' = shared s" using accept by (simp add: server_loop_body_def log_error_def Let_def)
  have "in_step s' h i" for i
  proof (cases "threads s' i = threads s i")
    case True
    with rec shared show ?thesis by (simp add: recorded_def in_step_def)
  next
    case False
    then have "i = j" "threads s' i = Some (Reading (client fd))" "threads s i = None"
      using accept by (auto simp: server_loop_body_def log_error_def Let_def split: if_splits)
    moreover have "in_step s h i" using rec by (simp add: recorded_def)
    ultimately show ?thesis unfolding in_step_def shared by (intro exI [of _ "{}"]) auto
  qed
  with rec accept(3) shared show ?thesis by (simp add: recorded_def)
next
  case (thread i)
  show ?thesis
  proof (cases e)
    case Internal
    with thread rec advance_internal [of i s s' h] have sh: "shared s' = shared s" and "in_step s' h i"
      and th: "\<And>j. j \<noteq> i \<Longrightarrow> threads s' j = threads s j" by (auto simp: recorded_def)
    then have "in_step s' h j" for j
      using rec by (cases "j = i") (auto simp: recorded_def in_step_def)
    with rec sh Internal show ?thesis by (simp add: recorded_def)
  next
    case (Acted i' a r)
    obtain k where p: "threads s i = Some (Working (Act a k))" and ex: "exec i a (shared s) = Next r (shared s')"
      and s': "threads s' = (threads s)(i \<mapsto> Working (k r))" and i': "i' = i"
      by (rule advance_acted [OF thread(2) [unfolded Acted]])
    obtain D where D: "changed i (shared s) \<subseteq> D" "phased (Act a k) (D, phase_of h i) (\<lambda>(r, c). phase_inv c)"
      using rec unfolding recorded_def in_step_def by (metis p thread_phased.simps(3))
    obtain H K C L where g: "tracked i s (H, K, C, L)" by (rule sys_inv_ghost [OF inv])
    have na: "next_action s i = Some a" using p by (simp add: next_action_def)
    note al = next_action_allowed [OF inv na g]
    have si: "server_inv (shared s)" using inv by (simp add: sys_inv_def)
    have ser: "serializes (shared s') (log_event (Acted i a r) h)"
      using exec_serializes [OF si al(2,1) ex _ D(1)] D(2) rec by (simp add: recorded_def)
    have "in_step s' (log_event e h) j" for j
    proof (cases "j = i")
      case True
      have "changed i (shared s') \<subseteq> fst (phase_after a r (D, phase_of h i))" by (rule changed_after [OF si ex D(1)])
      moreover have "phased (k r) (phase_after a r (D, phase_of h i)) (\<lambda>(r, c). phase_inv c)" using D(2) by simp
      moreover have "phase_after a r (D, phase_of h i) = (fst (phase_after a r (D, phase_of h i)), next_phase a (phase_of h i))"
        by (simp add: prod_eq_iff)
      ultimately have "thread_phased (threads s' i) (fst (phase_after a r (D, phase_of h i)), next_phase a (phase_of h i))"
        using s' by simp
      with \<open>changed i (shared s') \<subseteq> _\<close> show ?thesis
        unfolding in_step_def True Acted i' log_event_sels(3) by blast
    next
      case False
      then have "changed j (shared s') = changed j (shared s)" using exec_other(2) [OF si al(2,1) ex] by simp
      with False rec Acted i' s' show ?thesis by (simp add: recorded_def in_step_def)
    qed
    with ser Acted i' show ?thesis by (simp add: recorded_def)
  qed
next
  case hangup
  with rec show ?thesis by (simp add: recorded_def in_step_def)
qed

lemma path_recorded:
  "path s tr s' \<Longrightarrow> sys_inv s \<Longrightarrow> recorded s h \<Longrightarrow> recorded s' (fold log_event tr h)"
  by (induction rule: path.induct) (auto intro: step_recorded sys_inv_path)

lemma recorded_boot: "path boot tr s \<Longrightarrow> recorded s (history_of tr)"
proof -
  assume p: "path boot tr s"
  have "recorded boot \<lparr>closed_txs = [], open_tx = (\<lambda>_. []), phase_of = (\<lambda>_. Active)\<rparr>"
    by (auto simp: recorded_def serializes_def open_ok_def owned_def in_step_def lstore_def boot_def new_server_def
        changed_def fun_eq_iff)
  from path_recorded [OF p sys_inv_boot this] show ?thesis by (simp add: history_of_def)
qed

subsection \<open>Properties\<close>

text \<open>C4. Serializability: however the threads are interleaved, executing the committed transactions
  one after the other, in the order of their commits, from empty tables, is possible with every
  read returning the value it returned in the run, and gives the committed contents of all
  tables. Where a commit is under way, its table is counted with the changes to come.\<close>
theorem serializable:
  assumes "path boot tr s"
  shows "\<exists>G. serial (concat (map snd (transactions tr))) (\<lambda>_ _. []) = Some G \<and>
    (\<forall>t tb. heap (shared s) t = Some tb \<and> m_mutex tb = None \<longrightarrow> committed tb = G t) \<and>
    (\<forall>t tb i. heap (shared s) t = Some tb \<and> m_mutex tb = Some i \<longrightarrow>
       G t = (if phase_of (history_of tr) i = Committing then overlay (committed tb) (pending tb) else committed tb))"
proof -
  have "serial (concat (map snd (transactions tr))) (\<lambda>_ _. []) = Some (lstore (shared s) (history_of tr))"
    using recorded_boot [OF assms] by (simp add: recorded_def serializes_def transactions_def)
  then show ?thesis by (intro exI conjI) (auto simp: lstore_def logical_def)
qed

lemma history_Internal [simp]: "history_of (Internal # tr) = history_of tr"
  by (simp add: history_of_def)

lemma step_connect: "crashed s = None \<Longrightarrow> threads s i = None \<Longrightarrow> 4 + int i \<notin> open_fds s \<Longrightarrow> step s Internal (connect i bytes s)"
  unfolding connect_def by (rule step.accept)

lemma serializable_witness:
  "\<exists>tr s G tb. path boot tr s \<and> transactions tr = [(1, [Write_value 0 ''k'' ''5''])] \<and>
     serial [Write_value 0 ''k'' ''5''] (\<lambda>_ _. []) = Some G \<and>
     heap (shared s) 0 = Some tb \<and> committed tb = G 0 \<and> G 0 ''k'' = ''5''"
proof -
  let ?s = "connect 1 ''CREATE t\<newline>PUSH 5\<newline>SET t k\<newline>'' boot"
  have "case drive (replicate 18 1) ?s of None \<Rightarrow> False
    | Some (tr, s) \<Rightarrow> transactions tr = [(1, [Write_value 0 ''k'' ''5''])] \<and>
        (case heap (shared s) 0 of None \<Rightarrow> False | Some tb \<Rightarrow> m_mutex tb = None)"
    by code_simp
  then obtain tr s tb where d: "drive (replicate 18 1) ?s = Some (tr, s)"
    and tr: "transactions tr = [(1, [Write_value 0 ''k'' ''5''])]"
    and tb: "heap (shared s) 0 = Some tb" "m_mutex tb = None"
    by (auto split: option.splits)
  have "step boot Internal ?s" by (rule step_connect; simp add: boot_def)
  then have p: "path boot (Internal # tr) s" using drive_path [OF d] by (rule path_Cons)
  moreover have tr': "transactions (Internal # tr) = transactions tr" by (simp add: transactions_def)
  moreover obtain G where G: "serial [Write_value 0 ''k'' ''5''] (\<lambda>_ _. []) = Some G" "committed tb = G 0"
    using serializable [OF p] tr tb tr' by auto
  moreover from G(1) have "G 0 ''k'' = ''5''" by auto
  ultimately show ?thesis using tr tb by (intro exI conjI) (assumption | simp)+
qed

end
