(* ===== verification/Guard.thy ===== *)
theory Guard
  imports Server
begin

section \<open>Scoped locking\<close>

text \<open>
  The \<open>Guard\<close> class of \<open>guard.h\<close>: its constructor locks a mutex and its destructor, at the end
  of the scope, unlocks it. An exception that leaves the scope is a value of the body's result, so that
  the destructor runs for it as well. The server does not use the class; the lemmas say that
  \<open>find_table\<close> and \<open>create_table\<close>, which lock and unlock by hand, are such scopes, and what a scope
  promises in general.
\<close>

definition Guard :: "action \<times> action \<Rightarrow> 'a thread_prog \<Rightarrow> 'a thread_prog" where
  "Guard lock scope = Act (fst lock) (\<lambda>_. bind_prog scope (\<lambda>x. Act (snd lock) (\<lambda>_. Ret x)))"

definition tables_lock :: "action \<times> action" where
  "tables_lock = (Lock_tables, Unlock_tables)"

definition table_lock_of :: "tid \<Rightarrow> action \<times> action" where
  "table_lock_of t = (Lock_table t, Unlock_table t)"

lemma find_table_guarded:
  "find_table name = Guard tables_lock (Act (Find_name name) (\<lambda>r. Ret (case r of RPtr p \<Rightarrow> p | _ \<Rightarrow> None)))"
  by (simp add: find_table_def Guard_def tables_lock_def)

lemma create_table_guarded:
  "create_table name = Guard tables_lock (Act (New_table name) (\<lambda>_. Ret ()))"
  by (simp add: create_table_def Guard_def tables_lock_def)

text \<open>A scope is left with its result, after the body, and the mutex is free again.\<close>

lemma Guard_run:
  assumes "tables_mutex s = None"
  shows "run (exec i) (Guard tables_lock scope) s =
    (case run (exec i) scope (s\<lparr>tables_mutex := Some i\<rparr>) of
       Finished x s' \<Rightarrow> Finished x (s'\<lparr>tables_mutex := None\<rparr>) | Waiting \<Rightarrow> Waiting | Faulted \<Rightarrow> Faulted)"
  using assms
  by (simp add: Guard_def tables_lock_def run_bind mutex_lock_def mutex_unlock_def split: run_result.split)

text \<open>A scope inside a scope of the same mutex never gets past its constructor.\<close>

lemma Guard_not_reentrant:
  "tables_mutex s \<noteq> None \<Longrightarrow> run (exec i) (Guard tables_lock scope) s = Waiting"
  by (auto simp: Guard_def tables_lock_def mutex_lock_def)

end
