(* ===== verification/System_Calls.thy ===== *)
theory System_Calls
  imports Csapp_Io "HOL-Library.Word"
begin

section \<open>Wrappers of system and library calls\<close>

text \<open>
  The wrappers of \<open>csapp.c\<close>: each makes one call and ends the process with a message when it
  fails. A system call is not code of the repository: it is the first argument of the model, a
  function from its arguments and the state \<open>'w\<close> of the rest of the world to its result and
  the new state. \<open>libc\<close> reads and writes \<open>errno\<close> in that state. Pointers are 64-bit words, the
  null pointer is 0. A wrapper whose name is taken by something else here has the suffix
  \<open>_call\<close>.
\<close>

record 'w libc =
  get_errno :: "'w \<Rightarrow> int"
  set_errno :: "int \<Rightarrow> 'w \<Rightarrow> 'w"
  strerror :: "int \<Rightarrow> string"

type_synonym addr = "64 word"

definition perror :: "'w libc \<Rightarrow> string \<Rightarrow> 'w \<Rightarrow> 'a call" where
  "perror lc msg w = unix_error msg (strerror lc (get_errno lc w))"

definition or_exit :: "('r \<Rightarrow> bool) \<Rightarrow> ('r \<Rightarrow> 'w \<Rightarrow> 'a call) \<Rightarrow> ('r \<Rightarrow> 'a) \<Rightarrow> 'r \<times> 'w \<Rightarrow> 'a call \<times> 'w" where
  "or_exit failed report val rw =
     (case rw of (r, w) \<Rightarrow> (if failed r then report r w else Returned (val r), w))"

subsection \<open>Process control\<close>

definition Pause :: "('w \<Rightarrow> int \<times> 'w) \<Rightarrow> 'w \<Rightarrow> unit call \<times> 'w" where
  "Pause pause w = (Returned (), snd (pause w))"

text \<open>\<open>sleep\<close> returns the seconds that are left when a signal has interrupted it.\<close>

partial_function (option) sleep_loop ::
  "(32 word \<Rightarrow> 'w \<Rightarrow> 32 word \<times> 'w) \<Rightarrow>
   32 word \<Rightarrow> 'w \<Rightarrow> (32 word \<times> 'w) option" where
  "sleep_loop sleep remaining w =
     (case sleep remaining w of (rc, w') \<Rightarrow> if rc \<noteq> 0 then sleep_loop sleep rc w' else Some (rc, w'))"

definition Sleep :: "(32 word \<Rightarrow> 'w \<Rightarrow> 32 word \<times> 'w) \<Rightarrow> 32 word \<Rightarrow> 'w \<Rightarrow> (32 word \<times> 'w) option" where
  "Sleep sleep secs w = sleep_loop sleep secs w"

definition Alarm :: "(32 word \<Rightarrow> 'w \<Rightarrow> 32 word \<times> 'w) \<Rightarrow> 32 word \<Rightarrow> 'w \<Rightarrow> 32 word \<times> 'w" where
  "Alarm alarm seconds w = alarm seconds w"

definition Getpgrp :: "('w \<Rightarrow> int \<times> 'w) \<Rightarrow> 'w \<Rightarrow> int \<times> 'w" where
  "Getpgrp getpgrp w = getpgrp w"

definition Fork ::
  "'w libc \<Rightarrow> ('w \<Rightarrow> int \<times> 'w) \<Rightarrow> 'w \<Rightarrow> int call \<times> 'w" where
  "Fork lc fork w =
     or_exit (\<lambda>r. r < 0) (\<lambda>r. perror lc ''Fork error'') (\<lambda>r. r) (fork w)"

definition Execve ::
  "'w libc \<Rightarrow> (string \<Rightarrow> string list \<Rightarrow> string list \<Rightarrow> 'w \<Rightarrow> int \<times> 'w) \<Rightarrow>
   string \<Rightarrow> string list \<Rightarrow> string list \<Rightarrow> 'w \<Rightarrow> unit call \<times> 'w" where
  "Execve lc execve filename argv envp w =
     or_exit (\<lambda>r. r < 0) (\<lambda>r. perror lc ''Execve error'') (\<lambda>r. ()) (execve filename argv envp w)"

definition Wait ::
  "'w libc \<Rightarrow> (addr \<Rightarrow> 'w \<Rightarrow> int \<times> 'w) \<Rightarrow>
   addr \<Rightarrow> 'w \<Rightarrow> int call \<times> 'w" where
  "Wait lc wait status w =
     or_exit (\<lambda>r. r < 0) (\<lambda>r. perror lc ''Wait error'') (\<lambda>r. r) (wait status w)"

definition Waitpid ::
  "'w libc \<Rightarrow> (int \<Rightarrow> addr \<Rightarrow> int \<Rightarrow> 'w \<Rightarrow> int \<times> 'w) \<Rightarrow>
   int \<Rightarrow> addr \<Rightarrow> int \<Rightarrow> 'w \<Rightarrow> int call \<times> 'w" where
  "Waitpid lc waitpid pid iptr options w =
     or_exit (\<lambda>r. r < 0) (\<lambda>r. perror lc ''Waitpid error'') (\<lambda>r. r) (waitpid pid iptr options w)"

definition Kill ::
  "'w libc \<Rightarrow> (int \<Rightarrow> int \<Rightarrow> 'w \<Rightarrow> int \<times> 'w) \<Rightarrow>
   int \<Rightarrow> int \<Rightarrow> 'w \<Rightarrow> unit call \<times> 'w" where
  "Kill lc kill pid signum w =
     or_exit (\<lambda>r. r < 0) (\<lambda>r. perror lc ''Kill error'') (\<lambda>r. ()) (kill pid signum w)"

definition Setpgid ::
  "'w libc \<Rightarrow> (int \<Rightarrow> int \<Rightarrow> 'w \<Rightarrow> int \<times> 'w) \<Rightarrow>
   int \<Rightarrow> int \<Rightarrow> 'w \<Rightarrow> unit call \<times> 'w" where
  "Setpgid lc setpgid pid pgid w =
     or_exit (\<lambda>r. r < 0) (\<lambda>r. perror lc ''Setpgid error'') (\<lambda>r. ()) (setpgid pid pgid w)"

subsection \<open>Signals\<close>

record sigaction_t =
  sa_handler :: addr
  sa_mask :: "int set"
  sa_flags :: "32 word"

definition SA_RESTART :: "32 word" where
  "SA_RESTART = 0x10000000"

definition EINTR :: int where
  "EINTR = 4"

text \<open>\<open>sigaction\<close> returns its status and the old action.\<close>

definition Signal ::
  "'w libc \<Rightarrow> (int \<Rightarrow> sigaction_t \<Rightarrow> 'w \<Rightarrow> int \<times> sigaction_t \<times> 'w) \<Rightarrow>
   int \<Rightarrow> addr \<Rightarrow> 'w \<Rightarrow> addr call \<times> 'w" where
  "Signal lc sigaction signum handler w =
     (case sigaction signum \<lparr>sa_handler = handler, sa_mask = {}, sa_flags = SA_RESTART\<rparr> w of (r, old_action, w') \<Rightarrow>
        or_exit (\<lambda>r. r < 0) (\<lambda>r. perror lc ''Signal error'') (\<lambda>r. sa_handler old_action) (r, w'))"

definition Sigsuspend :: "'w libc \<Rightarrow> (addr \<Rightarrow> 'w \<Rightarrow> int \<times> 'w) \<Rightarrow> addr \<Rightarrow> 'w \<Rightarrow> int call \<times> 'w" where
  "Sigsuspend lc sigsuspend sigset w =
     (case sigsuspend sigset w of (rc, w') \<Rightarrow>
        if get_errno lc w' \<noteq> EINTR then (perror lc ''Sigsuspend error'' w', w') else (Returned rc, w'))"

definition Sigprocmask ::
  "'w libc \<Rightarrow> (int \<Rightarrow> addr \<Rightarrow> addr \<Rightarrow> 'w \<Rightarrow> int \<times> 'w) \<Rightarrow>
   int \<Rightarrow> addr \<Rightarrow> addr \<Rightarrow> 'w \<Rightarrow> unit call \<times> 'w" where
  "Sigprocmask lc sigprocmask how sigset oldset w =
     or_exit (\<lambda>r. r < 0) (\<lambda>r. perror lc ''Sigprocmask error'') (\<lambda>r. ()) (sigprocmask how sigset oldset w)"

definition Sigemptyset ::
  "'w libc \<Rightarrow> (addr \<Rightarrow> 'w \<Rightarrow> int \<times> 'w) \<Rightarrow>
   addr \<Rightarrow> 'w \<Rightarrow> unit call \<times> 'w" where
  "Sigemptyset lc sigemptyset sigset w =
     or_exit (\<lambda>r. r < 0) (\<lambda>r. perror lc ''Sigemptyset error'') (\<lambda>r. ()) (sigemptyset sigset w)"

definition Sigfillset ::
  "'w libc \<Rightarrow> (addr \<Rightarrow> 'w \<Rightarrow> int \<times> 'w) \<Rightarrow>
   addr \<Rightarrow> 'w \<Rightarrow> unit call \<times> 'w" where
  "Sigfillset lc sigfillset sigset w =
     or_exit (\<lambda>r. r < 0) (\<lambda>r. perror lc ''Sigfillset error'') (\<lambda>r. ()) (sigfillset sigset w)"

definition Sigaddset ::
  "'w libc \<Rightarrow> (addr \<Rightarrow> int \<Rightarrow> 'w \<Rightarrow> int \<times> 'w) \<Rightarrow>
   addr \<Rightarrow> int \<Rightarrow> 'w \<Rightarrow> unit call \<times> 'w" where
  "Sigaddset lc sigaddset sigset signum w =
     or_exit (\<lambda>r. r < 0) (\<lambda>r. perror lc ''Sigaddset error'') (\<lambda>r. ()) (sigaddset sigset signum w)"

definition Sigdelset ::
  "'w libc \<Rightarrow> (addr \<Rightarrow> int \<Rightarrow> 'w \<Rightarrow> int \<times> 'w) \<Rightarrow>
   addr \<Rightarrow> int \<Rightarrow> 'w \<Rightarrow> unit call \<times> 'w" where
  "Sigdelset lc sigdelset sigset signum w =
     or_exit (\<lambda>r. r < 0) (\<lambda>r. perror lc ''Sigdelset error'') (\<lambda>r. ()) (sigdelset sigset signum w)"

definition Sigismember ::
  "'w libc \<Rightarrow> (addr \<Rightarrow> int \<Rightarrow> 'w \<Rightarrow> int \<times> 'w) \<Rightarrow>
   addr \<Rightarrow> int \<Rightarrow> 'w \<Rightarrow> int call \<times> 'w" where
  "Sigismember lc sigismember sigset signum w =
     or_exit (\<lambda>r. r < 0) (\<lambda>r. perror lc ''Sigismember error'') (\<lambda>r. r) (sigismember sigset signum w)"

subsection \<open>Files\<close>

definition Open_call ::
  "'w libc \<Rightarrow> (string \<Rightarrow> int \<Rightarrow> nat \<Rightarrow> 'w \<Rightarrow> int \<times> 'w) \<Rightarrow>
   string \<Rightarrow> int \<Rightarrow> nat \<Rightarrow> 'w \<Rightarrow> int call \<times> 'w" where
  "Open_call lc open pathname flags mode w =
     or_exit (\<lambda>r. r < 0) (\<lambda>r. perror lc ''Open error'') (\<lambda>r. r) (open pathname flags mode w)"

definition Read_call ::
  "'w libc \<Rightarrow> (int \<Rightarrow> addr \<Rightarrow> nat \<Rightarrow> 'w \<Rightarrow> int \<times> 'w) \<Rightarrow>
   int \<Rightarrow> addr \<Rightarrow> nat \<Rightarrow> 'w \<Rightarrow> int call \<times> 'w" where
  "Read_call lc read fd buf count w =
     or_exit (\<lambda>r. r < 0) (\<lambda>r. perror lc ''Read error'') (\<lambda>r. r) (read fd buf count w)"

definition Write_call ::
  "'w libc \<Rightarrow> (int \<Rightarrow> addr \<Rightarrow> nat \<Rightarrow> 'w \<Rightarrow> int \<times> 'w) \<Rightarrow>
   int \<Rightarrow> addr \<Rightarrow> nat \<Rightarrow> 'w \<Rightarrow> int call \<times> 'w" where
  "Write_call lc write fd buf count w =
     or_exit (\<lambda>r. r < 0) (\<lambda>r. perror lc ''Write error'') (\<lambda>r. r) (write fd buf count w)"

definition Lseek ::
  "'w libc \<Rightarrow> (int \<Rightarrow> int \<Rightarrow> int \<Rightarrow> 'w \<Rightarrow> int \<times> 'w) \<Rightarrow>
   int \<Rightarrow> int \<Rightarrow> int \<Rightarrow> 'w \<Rightarrow> int call \<times> 'w" where
  "Lseek lc lseek fildes offset whence w =
     or_exit (\<lambda>r. r < 0) (\<lambda>r. perror lc ''Lseek error'') (\<lambda>r. r) (lseek fildes offset whence w)"

definition Close_call ::
  "'w libc \<Rightarrow> (int \<Rightarrow> 'w \<Rightarrow> int \<times> 'w) \<Rightarrow>
   int \<Rightarrow> 'w \<Rightarrow> unit call \<times> 'w" where
  "Close_call lc close fd w =
     or_exit (\<lambda>r. r < 0) (\<lambda>r. perror lc ''Close error'') (\<lambda>r. ()) (close fd w)"

definition Select ::
  "'w libc \<Rightarrow> (int \<Rightarrow> addr \<Rightarrow> addr \<Rightarrow> addr \<Rightarrow> addr \<Rightarrow> 'w \<Rightarrow> int \<times> 'w) \<Rightarrow>
   int \<Rightarrow> addr \<Rightarrow> addr \<Rightarrow> addr \<Rightarrow> addr \<Rightarrow> 'w \<Rightarrow> int call \<times> 'w" where
  "Select lc select n readfds writefds exceptfds timeout w =
     or_exit (\<lambda>r. r < 0) (\<lambda>r. perror lc ''Select error'') (\<lambda>r. r) (select n readfds writefds exceptfds timeout w)"

definition Dup2 ::
  "'w libc \<Rightarrow> (int \<Rightarrow> int \<Rightarrow> 'w \<Rightarrow> int \<times> 'w) \<Rightarrow>
   int \<Rightarrow> int \<Rightarrow> 'w \<Rightarrow> int call \<times> 'w" where
  "Dup2 lc dup2 fd1 fd2 w =
     or_exit (\<lambda>r. r < 0) (\<lambda>r. perror lc ''Dup2 error'') (\<lambda>r. r) (dup2 fd1 fd2 w)"

definition Stat ::
  "'w libc \<Rightarrow> (string \<Rightarrow> addr \<Rightarrow> 'w \<Rightarrow> int \<times> 'w) \<Rightarrow>
   string \<Rightarrow> addr \<Rightarrow> 'w \<Rightarrow> unit call \<times> 'w" where
  "Stat lc stat filename buf w =
     or_exit (\<lambda>r. r < 0) (\<lambda>r. perror lc ''Stat error'') (\<lambda>r. ()) (stat filename buf w)"

definition Fstat ::
  "'w libc \<Rightarrow> (int \<Rightarrow> addr \<Rightarrow> 'w \<Rightarrow> int \<times> 'w) \<Rightarrow>
   int \<Rightarrow> addr \<Rightarrow> 'w \<Rightarrow> unit call \<times> 'w" where
  "Fstat lc fstat fd buf w =
     or_exit (\<lambda>r. r < 0) (\<lambda>r. perror lc ''Fstat error'') (\<lambda>r. ()) (fstat fd buf w)"

subsection \<open>Directories and memory\<close>

definition Readdir :: "'w libc \<Rightarrow> (addr \<Rightarrow> 'w \<Rightarrow> addr \<times> 'w) \<Rightarrow> addr \<Rightarrow> 'w \<Rightarrow> addr call \<times> 'w" where
  "Readdir lc readdir dirp w =
     (case readdir dirp (set_errno lc 0 w) of (dep, w') \<Rightarrow>
        if dep = 0 \<and> get_errno lc w' \<noteq> 0 then (perror lc ''readdir error'' w', w') else (Returned dep, w'))"

definition Free :: "(addr \<Rightarrow> 'w \<Rightarrow> 'w) \<Rightarrow> addr \<Rightarrow> 'w \<Rightarrow> unit call \<times> 'w" where
  "Free free ptr w = (Returned (), free ptr w)"

definition Opendir ::
  "'w libc \<Rightarrow> (string \<Rightarrow> 'w \<Rightarrow> addr \<times> 'w) \<Rightarrow>
   string \<Rightarrow> 'w \<Rightarrow> addr call \<times> 'w" where
  "Opendir lc opendir name w =
     or_exit (\<lambda>r. r = 0) (\<lambda>r. perror lc ''opendir error'') (\<lambda>r. r) (opendir name w)"

definition Closedir ::
  "'w libc \<Rightarrow> (addr \<Rightarrow> 'w \<Rightarrow> int \<times> 'w) \<Rightarrow>
   addr \<Rightarrow> 'w \<Rightarrow> int call \<times> 'w" where
  "Closedir lc closedir dirp w =
     or_exit (\<lambda>r. r < 0) (\<lambda>r. perror lc ''closedir error'') (\<lambda>r. r) (closedir dirp w)"

definition Mmap ::
  "'w libc \<Rightarrow> (addr \<Rightarrow> nat \<Rightarrow> int \<Rightarrow> int \<Rightarrow> int \<Rightarrow> int \<Rightarrow> 'w \<Rightarrow> addr \<times> 'w) \<Rightarrow>
   addr \<Rightarrow> nat \<Rightarrow> int \<Rightarrow> int \<Rightarrow> int \<Rightarrow> int \<Rightarrow> 'w \<Rightarrow> addr call \<times> 'w" where
  "Mmap lc mmap adr len prot flags fd offset w =
     or_exit (\<lambda>r. r = -1) (\<lambda>r. perror lc ''mmap error'') (\<lambda>r. r) (mmap adr len prot flags fd offset w)"

definition Munmap ::
  "'w libc \<Rightarrow> (addr \<Rightarrow> nat \<Rightarrow> 'w \<Rightarrow> int \<times> 'w) \<Rightarrow>
   addr \<Rightarrow> nat \<Rightarrow> 'w \<Rightarrow> unit call \<times> 'w" where
  "Munmap lc munmap start len w =
     or_exit (\<lambda>r. r < 0) (\<lambda>r. perror lc ''munmap error'') (\<lambda>r. ()) (munmap start len w)"

definition Malloc ::
  "'w libc \<Rightarrow> (nat \<Rightarrow> 'w \<Rightarrow> addr \<times> 'w) \<Rightarrow>
   nat \<Rightarrow> 'w \<Rightarrow> addr call \<times> 'w" where
  "Malloc lc malloc sz w =
     or_exit (\<lambda>r. r = 0) (\<lambda>r. perror lc ''Malloc error'') (\<lambda>r. r) (malloc sz w)"

definition Realloc ::
  "'w libc \<Rightarrow> (addr \<Rightarrow> nat \<Rightarrow> 'w \<Rightarrow> addr \<times> 'w) \<Rightarrow>
   addr \<Rightarrow> nat \<Rightarrow> 'w \<Rightarrow> addr call \<times> 'w" where
  "Realloc lc realloc ptr sz w =
     or_exit (\<lambda>r. r = 0) (\<lambda>r. perror lc ''Realloc error'') (\<lambda>r. r) (realloc ptr sz w)"

definition Calloc ::
  "'w libc \<Rightarrow> (nat \<Rightarrow> nat \<Rightarrow> 'w \<Rightarrow> addr \<times> 'w) \<Rightarrow>
   nat \<Rightarrow> nat \<Rightarrow> 'w \<Rightarrow> addr call \<times> 'w" where
  "Calloc lc calloc nmemb sz w =
     or_exit (\<lambda>r. r = 0) (\<lambda>r. perror lc ''Calloc error'') (\<lambda>r. r) (calloc nmemb sz w)"

subsection \<open>Standard I/O\<close>

definition EOF :: int where
  "EOF = -1"

definition Fgets ::
  "(addr \<Rightarrow> int \<Rightarrow> addr \<Rightarrow> 'w \<Rightarrow> addr \<times> 'w) \<Rightarrow>
   (addr \<Rightarrow> 'w \<Rightarrow> bool) \<Rightarrow> addr \<Rightarrow> int \<Rightarrow> addr \<Rightarrow> 'w \<Rightarrow> addr call \<times> 'w" where
  "Fgets fgets ferror ptr n file w =
     (case fgets ptr n file w of (rptr, w') \<Rightarrow>
        if rptr = 0 \<and> ferror file w' then (app_error ''Fgets error'', w') else (Returned rptr, w'))"

definition Fread ::
  "'w libc \<Rightarrow> (addr \<Rightarrow> nat \<Rightarrow> nat \<Rightarrow> addr \<Rightarrow> 'w \<Rightarrow> nat \<times> 'w) \<Rightarrow> (addr \<Rightarrow> 'w \<Rightarrow> bool) \<Rightarrow>
   addr \<Rightarrow> nat \<Rightarrow> nat \<Rightarrow> addr \<Rightarrow> 'w \<Rightarrow> nat call \<times> 'w" where
  "Fread lc fread ferror ptr sz nmemb file w =
     (case fread ptr sz nmemb file w of (n, w') \<Rightarrow>
        if n < nmemb \<and> ferror file w' then (perror lc ''Fread error'' w', w') else (Returned n, w'))"

definition Fclose ::
  "'w libc \<Rightarrow> (addr \<Rightarrow> 'w \<Rightarrow> int \<times> 'w) \<Rightarrow>
   addr \<Rightarrow> 'w \<Rightarrow> unit call \<times> 'w" where
  "Fclose lc fclose fp w =
     or_exit (\<lambda>r. r \<noteq> 0) (\<lambda>r. perror lc ''Fclose error'') (\<lambda>r. ()) (fclose fp w)"

definition Fdopen ::
  "'w libc \<Rightarrow> (int \<Rightarrow> string \<Rightarrow> 'w \<Rightarrow> addr \<times> 'w) \<Rightarrow>
   int \<Rightarrow> string \<Rightarrow> 'w \<Rightarrow> addr call \<times> 'w" where
  "Fdopen lc fdopen fd typ w =
     or_exit (\<lambda>r. r = 0) (\<lambda>r. perror lc ''Fdopen error'') (\<lambda>r. r) (fdopen fd typ w)"

definition Fopen ::
  "'w libc \<Rightarrow> (string \<Rightarrow> string \<Rightarrow> 'w \<Rightarrow> addr \<times> 'w) \<Rightarrow>
   string \<Rightarrow> string \<Rightarrow> 'w \<Rightarrow> addr call \<times> 'w" where
  "Fopen lc fopen filename mode w =
     or_exit (\<lambda>r. r = 0) (\<lambda>r. perror lc ''Fopen error'') (\<lambda>r. r) (fopen filename mode w)"

definition Fputs ::
  "'w libc \<Rightarrow> (string \<Rightarrow> addr \<Rightarrow> 'w \<Rightarrow> int \<times> 'w) \<Rightarrow>
   string \<Rightarrow> addr \<Rightarrow> 'w \<Rightarrow> unit call \<times> 'w" where
  "Fputs lc fputs ptr file w =
     or_exit (\<lambda>r. r = EOF) (\<lambda>r. perror lc ''Fputs error'') (\<lambda>r. ()) (fputs ptr file w)"

definition Fwrite ::
  "'w libc \<Rightarrow> (addr \<Rightarrow> nat \<Rightarrow> nat \<Rightarrow> addr \<Rightarrow> 'w \<Rightarrow> nat \<times> 'w) \<Rightarrow>
   addr \<Rightarrow> nat \<Rightarrow> nat \<Rightarrow> addr \<Rightarrow> 'w \<Rightarrow> unit call \<times> 'w" where
  "Fwrite lc fwrite ptr sz nmemb file w =
     or_exit (\<lambda>r. r < nmemb) (\<lambda>r. perror lc ''Fwrite error'') (\<lambda>r. ()) (fwrite ptr sz nmemb file w)"

subsection \<open>Sockets\<close>

definition Freeaddrinfo :: "(addr \<Rightarrow> 'w \<Rightarrow> 'w) \<Rightarrow> addr \<Rightarrow> 'w \<Rightarrow> unit call \<times> 'w" where
  "Freeaddrinfo freeaddrinfo res w = (Returned (), freeaddrinfo res w)"

definition Inet_pton ::
  "'w libc \<Rightarrow> (int \<Rightarrow> string \<Rightarrow> addr \<Rightarrow> 'w \<Rightarrow> int \<times> 'w) \<Rightarrow>
   int \<Rightarrow> string \<Rightarrow> addr \<Rightarrow> 'w \<Rightarrow> unit call \<times> 'w" where
  "Inet_pton lc inet_pton af src dst w =
     (case inet_pton af src dst w of (rc, w') \<Rightarrow>
        if rc = 0 then (app_error ''inet_pton error: invalid dotted-decimal address'', w')
        else if rc < 0 then (perror lc ''Inet_pton error'' w', w')
        else (Returned (), w'))"

definition Socket_call ::
  "'w libc \<Rightarrow> (int \<Rightarrow> int \<Rightarrow> int \<Rightarrow> 'w \<Rightarrow> int \<times> 'w) \<Rightarrow>
   int \<Rightarrow> int \<Rightarrow> int \<Rightarrow> 'w \<Rightarrow> int call \<times> 'w" where
  "Socket_call lc socket domain typ protocol w =
     or_exit (\<lambda>r. r < 0) (\<lambda>r. perror lc ''Socket error'') (\<lambda>r. r) (socket domain typ protocol w)"

definition Setsockopt_call ::
  "'w libc \<Rightarrow> (int \<Rightarrow> int \<Rightarrow> int \<Rightarrow> addr \<Rightarrow> int \<Rightarrow> 'w \<Rightarrow> int \<times> 'w) \<Rightarrow>
   int \<Rightarrow> int \<Rightarrow> int \<Rightarrow> addr \<Rightarrow> int \<Rightarrow> 'w \<Rightarrow> unit call \<times> 'w" where
  "Setsockopt_call lc setsockopt s level optname optval optlen w =
     or_exit (\<lambda>r. r < 0) (\<lambda>r. perror lc ''Setsockopt error'') (\<lambda>r. ()) (setsockopt s level optname optval optlen w)"

definition Bind_call ::
  "'w libc \<Rightarrow> (int \<Rightarrow> addr \<Rightarrow> int \<Rightarrow> 'w \<Rightarrow> int \<times> 'w) \<Rightarrow>
   int \<Rightarrow> addr \<Rightarrow> int \<Rightarrow> 'w \<Rightarrow> unit call \<times> 'w" where
  "Bind_call lc bind sockfd my_addr addrlen w =
     or_exit (\<lambda>r. r < 0) (\<lambda>r. perror lc ''Bind error'') (\<lambda>r. ()) (bind sockfd my_addr addrlen w)"

definition Listen_call ::
  "'w libc \<Rightarrow> (int \<Rightarrow> int \<Rightarrow> 'w \<Rightarrow> int \<times> 'w) \<Rightarrow>
   int \<Rightarrow> int \<Rightarrow> 'w \<Rightarrow> unit call \<times> 'w" where
  "Listen_call lc listen s backlog w =
     or_exit (\<lambda>r. r < 0) (\<lambda>r. perror lc ''Listen error'') (\<lambda>r. ()) (listen s backlog w)"

definition Accept ::
  "'w libc \<Rightarrow> (int \<Rightarrow> addr \<Rightarrow> addr \<Rightarrow> 'w \<Rightarrow> int \<times> 'w) \<Rightarrow>
   int \<Rightarrow> addr \<Rightarrow> addr \<Rightarrow> 'w \<Rightarrow> int call \<times> 'w" where
  "Accept lc accept s adr addrlen w =
     or_exit (\<lambda>r. r < 0) (\<lambda>r. perror lc ''Accept error'') (\<lambda>r. r) (accept s adr addrlen w)"

definition Connect_call ::
  "'w libc \<Rightarrow> (int \<Rightarrow> addr \<Rightarrow> int \<Rightarrow> 'w \<Rightarrow> int \<times> 'w) \<Rightarrow>
   int \<Rightarrow> addr \<Rightarrow> int \<Rightarrow> 'w \<Rightarrow> unit call \<times> 'w" where
  "Connect_call lc connect sockfd serv_addr addrlen w =
     or_exit (\<lambda>r. r < 0) (\<lambda>r. perror lc ''Connect error'') (\<lambda>r. ()) (connect sockfd serv_addr addrlen w)"

definition Getaddrinfo ::
  "(int \<Rightarrow> string) \<Rightarrow>
   (string \<Rightarrow> string \<Rightarrow> addr \<Rightarrow> addr \<Rightarrow> 'w \<Rightarrow> int \<times> 'w) \<Rightarrow> string \<Rightarrow> string \<Rightarrow> addr \<Rightarrow> addr \<Rightarrow> 'w \<Rightarrow> unit call \<times> 'w" where
  "Getaddrinfo gai_strerror getaddrinfo node service hints res w =
     or_exit (\<lambda>r. r \<noteq> 0) (\<lambda>r w. gai_error gai_strerror r ''Getaddrinfo error'') (\<lambda>r. ()) (getaddrinfo node service hints res w)"

definition Getnameinfo ::
  "(int \<Rightarrow> string) \<Rightarrow>
   (addr \<Rightarrow> nat \<Rightarrow> addr \<Rightarrow> nat \<Rightarrow> addr \<Rightarrow> nat \<Rightarrow> int \<Rightarrow> 'w \<Rightarrow> int \<times> 'w) \<Rightarrow> addr \<Rightarrow> nat \<Rightarrow> addr \<Rightarrow> nat \<Rightarrow> addr \<Rightarrow> nat \<Rightarrow> int \<Rightarrow> 'w \<Rightarrow> unit call \<times> 'w" where
  "Getnameinfo gai_strerror getnameinfo sa salen host hostlen serv servlen flags w =
     or_exit (\<lambda>r. r \<noteq> 0) (\<lambda>r w. gai_error gai_strerror r ''Getnameinfo error'') (\<lambda>r. ()) (getnameinfo sa salen host hostlen serv servlen flags w)"

definition Inet_ntop ::
  "'w libc \<Rightarrow> (int \<Rightarrow> addr \<Rightarrow> addr \<Rightarrow> nat \<Rightarrow> 'w \<Rightarrow> addr \<times> 'w) \<Rightarrow>
   int \<Rightarrow> addr \<Rightarrow> addr \<Rightarrow> nat \<Rightarrow> 'w \<Rightarrow> unit call \<times> 'w" where
  "Inet_ntop lc inet_ntop af src dst sz w =
     or_exit (\<lambda>r. r = 0) (\<lambda>r. perror lc ''Inet_ntop error'') (\<lambda>r. ()) (inet_ntop af src dst sz w)"

definition Gethostbyname ::
  "(string \<Rightarrow> 'w \<Rightarrow> addr \<times> 'w) \<Rightarrow>
   string \<Rightarrow> 'w \<Rightarrow> addr call \<times> 'w" where
  "Gethostbyname gethostbyname name w =
     or_exit (\<lambda>r. r = 0) (\<lambda>r w. dns_error ''Gethostbyname error'') (\<lambda>r. r) (gethostbyname name w)"

definition Gethostbyaddr ::
  "(addr \<Rightarrow> int \<Rightarrow> int \<Rightarrow> 'w \<Rightarrow> addr \<times> 'w) \<Rightarrow>
   addr \<Rightarrow> int \<Rightarrow> int \<Rightarrow> 'w \<Rightarrow> addr call \<times> 'w" where
  "Gethostbyaddr gethostbyaddr adr len typ w =
     or_exit (\<lambda>r. r = 0) (\<lambda>r w. dns_error ''Gethostbyaddr error'') (\<lambda>r. r) (gethostbyaddr adr len typ w)"

subsection \<open>Threads and semaphores\<close>

text \<open>\<open>pthread_exit\<close> ends the thread: there is no result, only the state it leaves.\<close>

definition Pthread_exit :: "(addr \<Rightarrow> 'w \<Rightarrow> 'w) \<Rightarrow> addr \<Rightarrow> 'w \<Rightarrow> 'w" where
  "Pthread_exit pthread_exit retval w = pthread_exit retval w"

definition Pthread_self :: "('w \<Rightarrow> nat \<times> 'w) \<Rightarrow> 'w \<Rightarrow> nat \<times> 'w" where
  "Pthread_self pthread_self w = pthread_self w"

text \<open>The result of \<open>pthread_once\<close> is ignored.\<close>

definition Pthread_once :: "(addr \<Rightarrow> addr \<Rightarrow> 'w \<Rightarrow> int \<times> 'w) \<Rightarrow> addr \<Rightarrow> addr \<Rightarrow> 'w \<Rightarrow> unit call \<times> 'w" where
  "Pthread_once pthread_once once_control init_function w =
     (Returned (), snd (pthread_once once_control init_function w))"

definition Pthread_create ::
  "'w libc \<Rightarrow> (addr \<Rightarrow> addr \<Rightarrow> addr \<Rightarrow> addr \<Rightarrow> 'w \<Rightarrow> int \<times> 'w) \<Rightarrow>
   addr \<Rightarrow> addr \<Rightarrow> addr \<Rightarrow> addr \<Rightarrow> 'w \<Rightarrow> unit call \<times> 'w" where
  "Pthread_create lc pthread_create tidp attrp routine argp w =
     or_exit (\<lambda>r. r \<noteq> 0) (\<lambda>r w. posix_error (strerror lc) r ''Pthread_create error'') (\<lambda>r. ()) (pthread_create tidp attrp routine argp w)"

definition Pthread_cancel ::
  "'w libc \<Rightarrow> (nat \<Rightarrow> 'w \<Rightarrow> int \<times> 'w) \<Rightarrow>
   nat \<Rightarrow> 'w \<Rightarrow> unit call \<times> 'w" where
  "Pthread_cancel lc pthread_cancel tid w =
     or_exit (\<lambda>r. r \<noteq> 0) (\<lambda>r w. posix_error (strerror lc) r ''Pthread_cancel error'') (\<lambda>r. ()) (pthread_cancel tid w)"

definition Pthread_join ::
  "'w libc \<Rightarrow> (nat \<Rightarrow> addr \<Rightarrow> 'w \<Rightarrow> int \<times> 'w) \<Rightarrow>
   nat \<Rightarrow> addr \<Rightarrow> 'w \<Rightarrow> unit call \<times> 'w" where
  "Pthread_join lc pthread_join tid thread_return w =
     or_exit (\<lambda>r. r \<noteq> 0) (\<lambda>r w. posix_error (strerror lc) r ''Pthread_join error'') (\<lambda>r. ()) (pthread_join tid thread_return w)"

definition Pthread_detach ::
  "'w libc \<Rightarrow> (nat \<Rightarrow> 'w \<Rightarrow> int \<times> 'w) \<Rightarrow>
   nat \<Rightarrow> 'w \<Rightarrow> unit call \<times> 'w" where
  "Pthread_detach lc pthread_detach tid w =
     or_exit (\<lambda>r. r \<noteq> 0) (\<lambda>r w. posix_error (strerror lc) r ''Pthread_detach error'') (\<lambda>r. ()) (pthread_detach tid w)"

definition Sem_init ::
  "'w libc \<Rightarrow> (addr \<Rightarrow> int \<Rightarrow> nat \<Rightarrow> 'w \<Rightarrow> int \<times> 'w) \<Rightarrow>
   addr \<Rightarrow> int \<Rightarrow> nat \<Rightarrow> 'w \<Rightarrow> unit call \<times> 'w" where
  "Sem_init lc sem_init sem pshared val w =
     or_exit (\<lambda>r. r < 0) (\<lambda>r. perror lc ''Sem_init error'') (\<lambda>r. ()) (sem_init sem pshared val w)"

definition P_call ::
  "'w libc \<Rightarrow> (addr \<Rightarrow> 'w \<Rightarrow> int \<times> 'w) \<Rightarrow>
   addr \<Rightarrow> 'w \<Rightarrow> unit call \<times> 'w" where
  "P_call lc sem_wait sem w =
     or_exit (\<lambda>r. r < 0) (\<lambda>r. perror lc ''P error'') (\<lambda>r. ()) (sem_wait sem w)"

definition V_call ::
  "'w libc \<Rightarrow> (addr \<Rightarrow> 'w \<Rightarrow> int \<times> 'w) \<Rightarrow>
   addr \<Rightarrow> 'w \<Rightarrow> unit call \<times> 'w" where
  "V_call lc sem_post sem w =
     or_exit (\<lambda>r. r < 0) (\<lambda>r. perror lc ''V error'') (\<lambda>r. ()) (sem_post sem w)"

subsection \<open>What a wrapper returns\<close>

lemma or_exit_cases [simp]:
  "or_exit failed (\<lambda>r. perror lc m) val (r, w) = (Returned x, w') \<longleftrightarrow> \<not> failed r \<and> x = val r \<and> w' = w"
  "or_exit failed (\<lambda>r. perror lc m) val (r, w) = (Exited n out, w') \<longleftrightarrow>
     failed r \<and> n = 0 \<and> out = m @ '': '' @ strerror lc (get_errno lc w) @ ''\<newline>'' \<and> w' = w"
  by (auto simp: or_exit_def perror_def unix_error_def)

text \<open>The results that mean failure never reach a caller.\<close>

lemma descriptor_valid:
  "Open_call lc open p f m w = (Returned fd, w') \<Longrightarrow> 0 \<le> fd"
  "Socket_call lc socket d t pr w = (Returned fd, w') \<Longrightarrow> 0 \<le> fd"
  "Accept lc accept s a l w = (Returned fd, w') \<Longrightarrow> 0 \<le> fd"
  "Dup2 lc dup2 fd1 fd2 w = (Returned fd, w') \<Longrightarrow> 0 \<le> fd"
  by (cases "open p f m w", cases "socket d t pr w", cases "accept s a l w", cases "dup2 fd1 fd2 w",
    auto simp: Open_call_def Socket_call_def Accept_def Dup2_def)+

lemma memory_valid:
  "Malloc lc malloc n w = (Returned p, w') \<Longrightarrow> p \<noteq> 0"
  "Realloc lc realloc q n w = (Returned p, w') \<Longrightarrow> p \<noteq> 0"
  "Calloc lc calloc k n w = (Returned p, w') \<Longrightarrow> p \<noteq> 0"
  "Mmap lc mmap q n pr fl fd off w = (Returned p, w') \<Longrightarrow> p \<noteq> -1"
  by (cases "malloc n w", cases "realloc q n w", cases "calloc k n w", cases "mmap q n pr fl fd off w",
    auto simp: Malloc_def Realloc_def Calloc_def Mmap_def)+

text \<open>
  \<open>Sleep\<close> sleeps the whole time although signals interrupt it: when \<open>sleep\<close> returns the seconds that
  are left and only finitely many signals arrive, the loop ends, with result 0, and the clock has
  advanced by what was asked.
\<close>

lemma Sleep_whole_time:
  fixes clock :: "'w \<Rightarrow> nat" and signals :: "'w \<Rightarrow> nat"
  assumes slept: "\<And>r w. clock (snd (sleep r w)) + unat (fst (sleep r w)) \<ge> clock w + unat r"
    and interrupted: "\<And>r w. fst (sleep r w) \<noteq> 0 \<Longrightarrow> signals (snd (sleep r w)) < signals w"
  shows "\<exists>w'. Sleep sleep secs w = Some (0, w') \<and> clock w + unat secs \<le> clock w'"
  unfolding Sleep_def
proof (induction "signals w" arbitrary: secs w rule: less_induct)
  case less
  obtain rc w1 where one: "sleep secs w = (rc, w1)" by fastforce
  show ?case
  proof (cases "rc = 0")
    case True
    with one slept [where w = w and r = secs] show ?thesis by (simp add: sleep_loop.simps [of sleep secs])
  next
    case False
    with one interrupted [of secs w] have "signals w1 < signals w" by simp
    from less.hyps [OF this, of rc] obtain w' where
      "sleep_loop sleep rc w1 = Some (0, w')" "clock w1 + unat rc \<le> clock w'" by blast
    with one False slept [where w = w and r = secs] show ?thesis by (simp add: sleep_loop.simps [of sleep secs])
  qed
qed

end
