(* ===== verification/Test_Framework.thy ===== *)
theory Test_Framework
  imports Sio
begin

section \<open>The unit test framework\<close>

text \<open>
  \<open>tctest.h\<close> and \<open>tctest.c\<close>. A step of a test works on the test objects \<open>'o\<close> and on the
  framework's global variables; it is done, jumps back to the \<open>TEST\<close> macro (\<open>siglongjmp\<close>),
  throws, or gets the process stuck (undefined behaviour, or a lock that nobody gives back).
  \<open>out\<close> is what has been printed on the standard output. The two callbacks are a record of
  their calls. The lemmas say that the message of a signal handler fits into its buffers, and
  what the exit status of a test program means.
\<close>

datatype 'a test_end = Done 'a | Jumped | Threw "exn option" | Stuck

record tctest =
  assertion_line :: int
  failures :: int
  num_executed :: int
  testname_to_execute :: "string option"
  on_test_executed :: bool
  on_complete :: bool
  test_calls :: "(string \<times> bool) list"
  complete_calls :: "(int \<times> int) list"
  handlers :: "int list"
  out :: string

definition tctest_start :: tctest where
  "tctest_start = \<lparr>assertion_line = 0, failures = 0, num_executed = 0, testname_to_execute = None,
     on_test_executed = False, on_complete = False, test_calls = [], complete_calls = [], handlers = [], out = []\<rparr>"

type_synonym 'o test_step = "'o \<times> tctest \<Rightarrow> unit test_end \<times> 'o \<times> tctest"

definition print :: "string \<Rightarrow> tctest \<Rightarrow> tctest" where
  "print txt st = st\<lparr>out := out st @ txt\<rparr>"

text \<open>\<open>write\<close> on the standard output, its result being ignored.\<close>

definition tctest_write :: "string \<Rightarrow> nat \<Rightarrow> tctest \<Rightarrow> tctest" where
  "tctest_write buf n st = print (take n buf) st"

subsection \<open>Signals\<close>

definition tctest_signal_list :: "(int \<times> string) list" where
  "tctest_signal_list =
     [(8, ''floating point exception''), (11, ''segmentation fault''), (7, ''bus error''),
      (6, ''abort (assert failed?)''), (5, ''trap''), (31, ''bad system call''), (-1, ''unknown signal'')]"

definition tctest_register_signal_handlers :: "tctest \<Rightarrow> tctest" where
  "tctest_register_signal_handlers st =
     st\<lparr>handlers := map fst (takeWhile (\<lambda>(n, _). n \<noteq> -1) tctest_signal_list)\<rparr>"

text \<open>\<open>strcpy\<close> and \<open>memcpy\<close> into an array.\<close>

definition put_all :: "string \<Rightarrow> nat \<Rightarrow> string \<Rightarrow> string result" where
  "put_all s i bs =
     (if i + length bs \<le> length s then Inr (take i s @ bs @ drop (i + length bs) s) else Inl out_of_bounds)"

text \<open>
  The loop that turns the line number into digits is the one of \<open>sio_ltoa\<close> for base 10, with an
  array of its own; the second loop copies them in reverse.
\<close>

fun copy_digits :: "nat \<Rightarrow> string \<Rightarrow> nat \<Rightarrow> string \<Rightarrow> (nat \<times> string) result" where
  "copy_digits 0 stack n buf = Inr (n, buf)"
| "copy_digits (Suc ndig) stack n buf =
     (case put buf n (stack ! ndig) of
        Inl e \<Rightarrow> Inl e
      | Inr buf' \<Rightarrow> copy_digits ndig stack (Suc n) buf')"

definition recent :: string where
  "recent = '' (most recent ASSERT at line ''"

definition signal_text :: "string \<Rightarrow> int \<Rightarrow> string \<Rightarrow> string \<Rightarrow> string result" where
  "signal_text msg line raw_buf raw_stack =
     (if line \<le> 0 then Inr (msg @ ''\<newline>'')
      else case put_all raw_buf 0 (msg @ [CHR 0x00]) of
          Inl e \<Rightarrow> Inl e
        | Inr buf \<Rightarrow>
        (case put_all buf (length msg) recent of
          Inl e \<Rightarrow> Inl e
        | Inr buf \<Rightarrow>
        (case ltoa_loop line 10 0 raw_stack of
          Inl e \<Rightarrow> Inl e
        | Inr (ndig, stack) \<Rightarrow>
        (case copy_digits ndig stack (length msg + 29) buf of
          Inl e \<Rightarrow> Inl e
        | Inr (n, buf) \<Rightarrow>
        (case put buf n CHR '')'' of
          Inl e \<Rightarrow> Inl e
        | Inr buf \<Rightarrow>
        (case put buf (Suc n) CHR ''\<newline>'' of
          Inl e \<Rightarrow> Inl e
        | Inr buf \<Rightarrow> Inr (take (Suc (Suc n)) buf)))))))"

fun find_signal :: "(int \<times> string) list \<Rightarrow> int \<Rightarrow> string option" where
  "find_signal [] signum = None"
| "find_signal ((n, msg) # l) signum =
     (if n = -1 then None else if signum = n then Some msg else find_signal l signum)"

text \<open>Passing the null pointer to \<open>strlen\<close>, for a signal that is not in the list, is undefined.\<close>

definition tctest_signal_handler :: "int \<Rightarrow> string \<Rightarrow> string \<Rightarrow> tctest \<Rightarrow> 'a test_end \<times> tctest" where
  "tctest_signal_handler signum raw_buf raw_stack st =
     (case find_signal tctest_signal_list signum of
        None \<Rightarrow> (Stuck, st)
      | Some msg \<Rightarrow>
          (case signal_text msg (assertion_line st) raw_buf raw_stack of
             Inl e \<Rightarrow> (Stuck, st)
           | Inr txt \<Rightarrow> (Jumped, tctest_write txt (length txt) st)))"

lemma put_all_mid: "length a + length b \<le> length pre + length rest \<Longrightarrow> length a = length pre \<Longrightarrow>
  put_all (pre @ rest) (length a) b = Inr (pre @ b @ drop (length b) rest)"
  by (simp add: put_all_def)

lemma put_at: "length w = n \<Longrightarrow> put (w @ c # t) n d = Inr (w @ d # t)"
  using put_end by blast

lemma copy_digits_eq:
  "n \<le> length stack \<Longrightarrow> n \<le> length rest \<Longrightarrow> length pre = k \<Longrightarrow>
   copy_digits n stack k (pre @ rest) = Inr (k + n, pre @ rev (take n stack) @ drop n rest)"
proof (induction n arbitrary: k pre rest)
  case (Suc n)
  then obtain c rest' where r: "rest = c # rest'" by (cases rest) auto
  with Suc.prems have "copy_digits n stack (Suc k) ((pre @ [stack ! n]) @ rest') =
      Inr (Suc k + n, (pre @ [stack ! n]) @ rev (take n stack) @ drop n rest')"
    by (intro Suc.IH) simp_all
  with Suc.prems r show ?case by (simp add: put_at take_Suc_conv_app_nth)
qed simp

text \<open>
  The buffers of 512 and 16 bytes are large enough for the messages of the list and any line
  number that is an \<open>int\<close>.
\<close>

lemma signal_text_fits:
  assumes "length raw_buf = 512" and "length raw_stack = 16" and "length msg \<le> 100" and "0 < l" and "l < 2 ^ 31"
  shows "signal_text msg l raw_buf raw_stack = Inr (msg @ recent @ show_int l @ '')\<newline>'')"
proof -
  let ?d = "show_nat (nat l)"
  have "nat l < 10 ^ Suc 9" using assms(5) by (simp add: nat_less_iff)
  then have d: "length ?d \<le> 10" using length_show_nat [of "nat l" 9] by simp
  have sh: "show_int l = ?d" using assms(4) by (simp add: show_int_def)
  have lr: "length recent = 29" by (simp add: recent_def)
  have loop: "ltoa_loop l 10 0 raw_stack = Inr (length ?d, rev ?d @ drop (length ?d) raw_stack)"
    using ltoa_loop_eq [of 0 "nat l" raw_stack] assms(2,4) d by simp
  have b1: "put_all raw_buf 0 (msg @ [CHR 0x00]) = Inr (msg @ CHR 0x00 # drop (Suc (length msg)) raw_buf)"
    using assms(1,3) by (simp add: put_all_def)
  have b2: "put_all (msg @ CHR 0x00 # drop (Suc (length msg)) raw_buf) (length msg) recent =
      Inr ((msg @ recent) @ drop (length msg + 29) raw_buf)"
    using assms(1,3) put_all_mid [of msg recent msg "CHR 0x00 # drop (Suc (length msg)) raw_buf"]
    by (simp add: lr numeral_eq_Suc add.commute)
  have b3: "copy_digits (length ?d) (rev ?d @ drop (length ?d) raw_stack) (length msg + 29)
      ((msg @ recent) @ drop (length msg + 29) raw_buf) =
      Inr (length msg + 29 + length ?d, (msg @ recent @ ?d) @ drop (length msg + 29 + length ?d) raw_buf)"
    using copy_digits_eq [of "length ?d" "rev ?d @ drop (length ?d) raw_stack" "drop (length msg + 29) raw_buf" "msg @ recent"]
      assms(1,2,3) d by (simp add: lr add.commute add.left_commute)
  have "length msg + 29 + length ?d + 2 \<le> length raw_buf" using assms(1,3) d by simp
  then obtain x y r where r: "drop (length msg + 29 + length ?d) raw_buf = x # y # r"
    by (metis Cons_nth_drop_Suc add_2_eq_Suc' Suc_le_eq Suc_lessD)
  have "put ((msg @ recent @ ?d) @ x # y # r) (length msg + 29 + length ?d) CHR '')'' =
      Inr ((msg @ recent @ ?d @ '')'') @ y # r)"
    "put ((msg @ recent @ ?d @ '')'') @ y # r) (Suc (length msg + 29 + length ?d)) CHR ''\<newline>'' =
      Inr ((msg @ recent @ ?d @ '')\<newline>'') @ r)"
    using put_at [of "msg @ recent @ ?d" "length msg + 29 + length ?d" x "y # r"]
      put_at [of "msg @ recent @ ?d @ '')''" "Suc (length msg + 29 + length ?d)" y r]
    by (simp_all add: lr)
  then show ?thesis
    using assms(4) b1 b2 b3 loop r by (simp add: signal_text_def sh lr del: append_assoc)
qed

subsection \<open>Steps of a test\<close>

definition tctest_fail :: "string \<Rightarrow> tctest \<Rightarrow> 'a test_end \<times> tctest" where
  "tctest_fail txt st = (Jumped, print txt st)"

text \<open>What the evaluation of an expression does: a value, an exception, or a trap.\<close>

definition evaluate :: "('o \<Rightarrow> bool result \<times> 'o) \<Rightarrow> (bool \<Rightarrow> 'o test_step) \<Rightarrow> 'o test_step" where
  "evaluate x f s =
     (case s of (ob, st) \<Rightarrow> (case x ob of
        (Inr b, ob') \<Rightarrow> f b (ob', st)
      | (Inl (Raise e), ob') \<Rightarrow> (Threw (Some e), ob', st)
      | (Inl Sigfpe, ob') \<Rightarrow>
          (case tctest_signal_handler 8 (replicate 512 CHR 0x00) (replicate 16 CHR 0x00) st of (r, st') \<Rightarrow> (r, ob', st'))
      | (Inl _, ob') \<Rightarrow> (Stuck, ob', st)))"

text \<open>The macro \<open>ASSERT\<close> with the text of its condition and its line.\<close>

definition ASSERT :: "string \<Rightarrow> int \<Rightarrow> ('o \<Rightarrow> bool result \<times> 'o) \<Rightarrow> 'o test_step" where
  "ASSERT txt line x s =
     (case s of (ob, st) \<Rightarrow>
        evaluate x (\<lambda>b (ob', st').
          if \<not> b
          then (case tctest_fail (''failed ASSERT '' @ txt @ '' at line '' @ show_int line @ ''\<newline>'') st' of
            (r, st'') \<Rightarrow> (r, ob', st''))
          else (Done (), ob', st')) (ob, st\<lparr>assertion_line := line\<rparr>))"

definition FAIL :: "string \<Rightarrow> 'o test_step" where
  "FAIL msg s = (case s of (ob, st) \<Rightarrow> (case tctest_fail (''failed, '' @ msg @ ''\<newline>'') st of (r, st') \<Rightarrow> (r, ob, st')))"

fun steps :: "'o test_step list \<Rightarrow> 'o test_step" where
  "steps [] s = (Done (), s)"
| "steps (x # xs) s = (case x s of (Done _, s') \<Rightarrow> steps xs s' | other \<Rightarrow> other)"

subsection \<open>The macros\<close>

definition TEST_INIT :: "tctest \<Rightarrow> tctest" where
  "TEST_INIT st = tctest_register_signal_handlers st"

definition finished_test :: "string \<Rightarrow> bool \<Rightarrow> tctest \<Rightarrow> tctest" where
  "finished_test name passed st =
     (if on_test_executed st then st\<lparr>test_calls := test_calls st @ [(name, passed)]\<rparr> else st)"

definition count_failure :: "string \<Rightarrow> tctest \<Rightarrow> tctest" where
  "count_failure name st = finished_test name False (st\<lparr>failures := failures st + 1\<rparr>)"

text \<open>
  The end of the \<open>TEST\<close> macro after the test or its setup. \<open>cleanup\<close> deletes the objects and
  leaves nothing to see. \<open>None\<close>: the process does not get on.
\<close>

definition test_over :: "string \<Rightarrow> 'a test_end \<Rightarrow> tctest \<Rightarrow> tctest option" where
  "test_over name r st =
     (case r of
        Done _ \<Rightarrow> Some (finished_test name True (print ''passed!\<newline>'' st))
      | Jumped \<Rightarrow> Some (count_failure name st)
      | Threw (Some e) \<Rightarrow> Some (count_failure name (print (''std::exception (what='' @ [CHR 0x27] @ what e @ [CHR 0x27] @ '')\<newline>'') st))
      | Threw None \<Rightarrow> Some (count_failure name (print ''exception\<newline>'' st))
      | Stuck \<Rightarrow> None)"

definition TEST :: "'o test_end \<Rightarrow> string \<times> 'o test_step \<Rightarrow> tctest \<Rightarrow> tctest option" where
  "TEST setup test st =
     (case test of (name, func) \<Rightarrow>
        if testname_to_execute st = None \<or> testname_to_execute st = Some name then
          let st1 = st\<lparr>num_executed := num_executed st + 1, assertion_line := -1\<rparr> in
          case setup of
            Done ob \<Rightarrow> (case func (ob, print (name @ ''...'') st1) of (r, ob', st') \<Rightarrow> test_over name r st')
          | other \<Rightarrow> test_over name other st1
        else Some st)"

fun run_tests :: "'o test_end \<Rightarrow> (string \<times> 'o test_step) list \<Rightarrow> tctest \<Rightarrow> tctest option" where
  "run_tests setup [] st = Some st"
| "run_tests setup (x # xs) st = Option.bind (TEST setup x st) (run_tests setup xs)"

definition TEST_FINI :: "tctest \<Rightarrow> int \<times> tctest" where
  "TEST_FINI st =
     (let st1 = (if failures st = 0
                 then (if num_executed st > 0 then print ''All tests passed!\<newline>'' st else print ''No tests were executed!\<newline>'' st)
                 else print (show_int (failures st) @ '' test(s) failed\<newline>'') st);
          st2 = (if on_complete st1
                 then st1\<lparr>complete_calls := complete_calls st1 @ [(num_executed st1 - failures st1, num_executed st1)]\<rparr>
                 else st1)
      in (if failures st2 > 0 \<or> failures st2 = 0 \<and> num_executed st2 = 0 then 1 else 0, st2))"

subsection \<open>The verdict\<close>

text \<open>What a test that passes leaves of the framework's variables.\<close>

definition passes :: "'o \<Rightarrow> 'o test_step \<Rightarrow> bool" where
  "passes ob func \<longleftrightarrow> (\<forall>st. \<exists>ob' l. func (ob, st) = (Done (), ob', st\<lparr>assertion_line := l\<rparr>))"

lemma TEST_passes:
  assumes "passes ob func" and "\<not> on_test_executed st"
  shows "\<exists>l. TEST (Done ob) (name, func) st =
    Some (if testname_to_execute st = None \<or> testname_to_execute st = Some name
          then st\<lparr>num_executed := num_executed st + 1, assertion_line := l, out := out st @ name @ ''...passed!\<newline>''\<rparr>
          else st)"
proof -
  obtain ob' l where "func (ob, print (name @ ''...'') (st\<lparr>num_executed := num_executed st + 1, assertion_line := -1\<rparr>)) =
      (Done (), ob', (print (name @ ''...'') (st\<lparr>num_executed := num_executed st + 1, assertion_line := -1\<rparr>))\<lparr>assertion_line := l\<rparr>)"
    using assms(1) unfolding passes_def by blast
  with assms(2) show ?thesis
    by (intro exI [of _ l]) (simp add: TEST_def test_over_def finished_test_def print_def)
qed

text \<open>The tests that a run executes.\<close>

definition selected :: "tctest \<Rightarrow> (string \<times> 'b) list \<Rightarrow> string list" where
  "selected st ts = filter (\<lambda>n. testname_to_execute st = None \<or> testname_to_execute st = Some n) (map fst ts)"

lemma run_tests_passes:
  assumes "\<forall>t\<in>set ts. passes ob (snd t)" and "\<not> on_test_executed st"
  shows "\<exists>l. run_tests (Done ob) ts st =
    Some (st\<lparr>num_executed := num_executed st + int (length (selected st ts)), assertion_line := l,
      out := out st @ concat (map (\<lambda>n. n @ ''...passed!\<newline>'') (selected st ts))\<rparr>)"
  using assms
proof (induction ts arbitrary: st)
  case Nil
  then show ?case by (intro exI [of _ "assertion_line st"]) (simp add: selected_def)
next
  case (Cons t ts)
  obtain name func where t: "t = (name, func)" by (cases t) auto
  with Cons.prems have p: "passes ob func" by simp
  let ?sel = "testname_to_execute st = None \<or> testname_to_execute st = Some name"
  obtain k where T: "TEST (Done ob) t st = Some (if ?sel
      then st\<lparr>num_executed := num_executed st + 1, assertion_line := k, out := out st @ name @ ''...passed!\<newline>''\<rparr> else st)"
    using TEST_passes [OF p Cons.prems(2), of name] t by auto
  let ?st = "if ?sel then st\<lparr>num_executed := num_executed st + 1, assertion_line := k, out := out st @ name @ ''...passed!\<newline>''\<rparr> else st"
  have sel: "selected st (t # ts) = (if ?sel then name # selected ?st ts else selected ?st ts)"
    by (auto simp: selected_def t)
  have "\<not> on_test_executed ?st" using Cons.prems(2) by simp
  from Cons.IH [OF _ this] Cons.prems(1) obtain l where
    R: "run_tests (Done ob) ts ?st = Some (?st\<lparr>num_executed := num_executed ?st + int (length (selected ?st ts)), assertion_line := l,
      out := out ?st @ concat (map (\<lambda>n. n @ ''...passed!\<newline>'') (selected ?st ts))\<rparr>)" by auto
  have "run_tests (Done ob) (t # ts) st = run_tests (Done ob) ts ?st" using T by simp
  then show ?case unfolding R sel by (intro exI [of _ l]) simp
qed

text \<open>The exit status is 0 only when there were tests and none has failed.\<close>

lemma TEST_FINI_status:
  "0 \<le> failures st \<Longrightarrow> fst (TEST_FINI st) = 0 \<longleftrightarrow> failures st = 0 \<and> num_executed st \<noteq> 0"
  by (auto simp: TEST_FINI_def Let_def print_def)

end
