(* ===== verification/Unit_Tests.thy ===== *)
theory Unit_Tests
  imports Test_Framework Serialization Value_Stack Table
begin

section \<open>The unit tests of the repository\<close>

text \<open>
  \<open>unit_tests.cpp\<close>, run on the model: the fixture \<open>TestObjs\<close>, every test with all its
  assertions, and \<open>main\<close>. The property at the end says that all of them pass; it is a check of
  the definitions of the other theories against what the authors of the code expect of it.

  A condition is a function of the test objects; \<open>get\<close> of a table changes them and can throw.
  \<open>TableGuard\<close> locks a table and unlocks it at the end of its scope, unless the test leaves the
  scope by the jump of a failed assertion, which runs no destructors.
\<close>

record TestObjs =
  default_message :: Message
  login_req :: Message
  create_req :: Message
  push_req :: Message
  pop_req :: Message
  set_req :: Message
  get_req :: Message
  add_req :: Message
  mul_req :: Message
  sub_req :: Message
  div_req :: Message
  bye_req :: Message
  ok_resp :: Message
  failed_resp :: Message
  error_resp :: Message
  data_resp :: Message
  long_get_req :: Message
  create_req_2 :: Message
  invalid_login_req :: Message
  invalid_create_req :: Message
  invalid_data_resp :: Message
  invalid_too_long :: Message
  encoded_login_req :: string
  encoded_create_req :: string
  encoded_data_resp :: string
  encoded_get_req :: string
  encoded_failed_resp :: string
  encoded_error_resp :: string
  encoded_bye_req :: string
  encoded_push_req_no_nl :: string
  encoded_get_req_too_long :: string
  invoices :: table
  line_items :: table
  valstack :: value_stack

definition fixture :: TestObjs where
  "fixture =
     \<lparr>default_message = Message_default,
      login_req = mk_message LOGIN [''alice''],
      create_req = mk_message CREATE [''accounts''],
      push_req = mk_message PUSH [''47374''],
      pop_req = mk_message POP [],
      set_req = mk_message SET [''accounts'', ''acct123''],
      get_req = mk_message GET [''accounts'', ''acct123''],
      add_req = mk_message ADD [],
      mul_req = mk_message MUL [],
      sub_req = mk_message SUB [],
      div_req = mk_message DIV [],
      bye_req = mk_message BYE [],
      ok_resp = mk_message OK [],
      failed_resp = mk_message FAILED [''The operation failed''],
      error_resp = mk_message ERROR [''An error occurred''],
      data_resp = mk_message DATA [''10012''],
      long_get_req = push_arg (replicate 509 CHR ''y'') (push_arg (replicate 509 CHR ''y'') (mk_message GET [])),
      create_req_2 = mk_message CREATE [''line_items''],
      invalid_login_req = mk_message LOGIN [''bob'', ''extra''],
      invalid_create_req = mk_message CREATE [''8foobar''],
      invalid_data_resp = mk_message DATA [],
      invalid_too_long = push_arg (replicate 510 CHR ''x'') (push_arg (replicate 509 CHR ''x'') (mk_message SET [])),
      encoded_login_req = ''LOGIN alice\<newline>'',
      encoded_create_req = ''     CREATE   invoices  \<newline>'',
      encoded_data_resp = ''DATA 90125\<newline>'',
      encoded_get_req = ''GET lineitems foobar\<newline>'',
      encoded_failed_resp = ''FAILED \"Something went wrong, shucks!\"\<newline>'',
      encoded_error_resp = '' ERROR \"Wow, something really got messed up\"\<newline>'',
      encoded_bye_req = ''BYE\<newline>'',
      encoded_push_req_no_nl = ''PUSH 91025'',
      encoded_get_req_too_long = ''GET foo '' @ replicate MAX_ENCODED_LEN CHR ''x'',
      invoices = new_table ''invoices'',
      line_items = new_table ''line_items'',
      valstack = ValueStack\<rparr>"

subsection \<open>Statements of the tests\<close>

definition check :: "('o \<Rightarrow> bool) \<Rightarrow> 'o \<Rightarrow> bool result \<times> 'o" where
  "check b ob = (Inr (b ob), ob)"

definition equals :: "'a \<Rightarrow> ('o \<Rightarrow> 'a result) \<Rightarrow> 'o \<Rightarrow> bool result \<times> 'o" where
  "equals v r ob = (map_sum id (\<lambda>x. v = x) (r ob), ob)"

definition gets :: "string \<Rightarrow> ('o \<Rightarrow> table) \<Rightarrow> (table \<Rightarrow> 'o \<Rightarrow> 'o) \<Rightarrow> string \<Rightarrow> 'o \<Rightarrow> bool result \<times> 'o" where
  "gets v table_of upd k ob = (case table_get k (table_of ob) of (r, t) \<Rightarrow> (map_sum id (\<lambda>x. v = x) r, upd t ob))"

definition thrown :: "failure \<Rightarrow> 'a test_end" where
  "thrown e = (case e of Raise x \<Rightarrow> Threw (Some x) | _ \<Rightarrow> Stuck)"

definition change :: "('o \<Rightarrow> 'o) \<Rightarrow> 'o test_step" where
  "change f s = (case s of (ob, st) \<Rightarrow> (Done (), f ob, st))"

definition attempt :: "('o \<Rightarrow> 'o result) \<Rightarrow> 'o test_step" where
  "attempt f s = (case s of (ob, st) \<Rightarrow> (case f ob of Inr ob' \<Rightarrow> (Done (), ob', st) | Inl e \<Rightarrow> (thrown e, ob, st)))"

definition with_value :: "('o \<Rightarrow> 'a result) \<Rightarrow> ('a \<Rightarrow> 'o test_step list) \<Rightarrow> 'o test_step" where
  "with_value r body s =
     (case s of (ob, st) \<Rightarrow> (case r ob of Inr x \<Rightarrow> steps (body x) (ob, st) | Inl e \<Rightarrow> (thrown e, ob, st)))"

definition locked :: "('o \<Rightarrow> table) \<Rightarrow> (table \<Rightarrow> 'o \<Rightarrow> 'o) \<Rightarrow> 'o test_step list \<Rightarrow> 'o test_step" where
  "locked table_of upd body s =
     (case s of (ob, st) \<Rightarrow>
       (case table_lock 0 (table_of ob) of
          None \<Rightarrow> (Stuck, ob, st)
        | Some t \<Rightarrow>
            (case steps body (upd t ob, st) of (r, ob', st') \<Rightarrow>
               (r, if r = Jumped then ob' else upd (table_unlock (table_of ob')) ob', st'))))"

fun is_InvalidMessage :: "exn \<Rightarrow> bool" where
  "is_InvalidMessage (InvalidMessage m) \<longleftrightarrow> True"
| "is_InvalidMessage _ \<longleftrightarrow> False"

fun is_OperationException :: "exn \<Rightarrow> bool" where
  "is_OperationException (OperationException m) \<longleftrightarrow> True"
| "is_OperationException _ \<longleftrightarrow> False"

definition expect_exception :: "('o \<Rightarrow> 'o result) \<Rightarrow> (exn \<Rightarrow> bool) \<Rightarrow> string \<Rightarrow> 'o test_step" where
  "expect_exception f caught_by msg s =
     (case s of (ob, st) \<Rightarrow>
       (case f ob of
          Inr ob' \<Rightarrow> FAIL msg (ob', st)
        | Inl (Raise e) \<Rightarrow> if caught_by e then (Done (), ob, st) else (Threw (Some e), ob, st)
        | Inl e \<Rightarrow> (thrown e, ob, st)))"

text \<open>The scope of \<open>TableGuard g( objs->invoices )\<close>, and the same for \<open>line_items\<close>.\<close>

definition set_invoices :: "table \<Rightarrow> TestObjs \<Rightarrow> TestObjs" where
  "set_invoices t ob = ob\<lparr>invoices := t\<rparr>"

definition set_line_items :: "table \<Rightarrow> TestObjs \<Rightarrow> TestObjs" where
  "set_line_items t ob = ob\<lparr>line_items := t\<rparr>"

subsection \<open>The tests\<close>

definition test_message_default_ctor :: "TestObjs test_step" where
  "test_message_default_ctor = steps [
     ASSERT ''MessageType::NONE == objs->m.get_message_type()'' 222 (check (\<lambda>ob. get_message_type (default_message ob) = NONE)),
     ASSERT ''objs->m.get_num_args() == 0'' 223 (check (\<lambda>ob. get_num_args (default_message ob) = 0))]"

definition test_message_get_message_type :: "TestObjs test_step" where
  "test_message_get_message_type = steps [
     ASSERT ''MessageType::LOGIN == objs->login_req.get_message_type()'' 228 (check (\<lambda>ob. get_message_type (login_req ob) = LOGIN)),
     ASSERT ''MessageType::CREATE == objs->create_req.get_message_type()'' 229 (check (\<lambda>ob. get_message_type (create_req ob) = CREATE)),
     ASSERT ''MessageType::PUSH == objs->push_req.get_message_type()'' 230 (check (\<lambda>ob. get_message_type (push_req ob) = PUSH)),
     ASSERT ''MessageType::POP == objs->pop_req.get_message_type()'' 231 (check (\<lambda>ob. get_message_type (pop_req ob) = POP)),
     ASSERT ''MessageType::SET == objs->set_req.get_message_type()'' 232 (check (\<lambda>ob. get_message_type (set_req ob) = SET)),
     ASSERT ''MessageType::GET == objs->get_req.get_message_type()'' 233 (check (\<lambda>ob. get_message_type (get_req ob) = GET)),
     ASSERT ''MessageType::ADD == objs->add_req.get_message_type()'' 234 (check (\<lambda>ob. get_message_type (add_req ob) = ADD)),
     ASSERT ''MessageType::MUL == objs->mul_req.get_message_type()'' 235 (check (\<lambda>ob. get_message_type (mul_req ob) = MUL)),
     ASSERT ''MessageType::SUB == objs->sub_req.get_message_type()'' 236 (check (\<lambda>ob. get_message_type (sub_req ob) = SUB)),
     ASSERT ''MessageType::DIV == objs->div_req.get_message_type()'' 237 (check (\<lambda>ob. get_message_type (div_req ob) = DIV)),
     ASSERT ''MessageType::BYE == objs->bye_req.get_message_type()'' 238 (check (\<lambda>ob. get_message_type (bye_req ob) = BYE)),
     ASSERT ''MessageType::OK == objs->ok_resp.get_message_type()'' 240 (check (\<lambda>ob. get_message_type (ok_resp ob) = OK)),
     ASSERT ''MessageType::FAILED == objs->failed_resp.get_message_type()'' 241 (check (\<lambda>ob. get_message_type (failed_resp ob) = FAILED)),
     ASSERT ''MessageType::ERROR == objs->error_resp.get_message_type()'' 242 (check (\<lambda>ob. get_message_type (error_resp ob) = ERROR)),
     ASSERT ''MessageType::DATA == objs->data_resp.get_message_type()'' 243 (check (\<lambda>ob. get_message_type (data_resp ob) = DATA)),
     ASSERT ''MessageType::GET == objs->long_get_req.get_message_type()'' 245 (check (\<lambda>ob. get_message_type (long_get_req ob) = GET)),
     ASSERT ''MessageType::CREATE == objs->create_req_2.get_message_type()'' 246 (check (\<lambda>ob. get_message_type (create_req_2 ob) = CREATE))]"

definition test_message_get_username :: "TestObjs test_step" where
  "test_message_get_username = steps [
     ASSERT ''\"alice\" == objs->login_req.get_username()'' 251 (equals ''alice'' (\<lambda>ob. get_username (login_req ob)))]"

definition test_message_get_table :: "TestObjs test_step" where
  "test_message_get_table = steps [
     ASSERT ''\"accounts\" == objs->create_req.get_table()'' 256 (equals ''accounts'' (\<lambda>ob. get_table (create_req ob))),
     ASSERT ''\"accounts\" == objs->set_req.get_table()'' 257 (equals ''accounts'' (\<lambda>ob. get_table (set_req ob))),
     ASSERT ''\"accounts\" == objs->get_req.get_table()'' 258 (equals ''accounts'' (\<lambda>ob. get_table (get_req ob))),
     ASSERT (''std::string( 509, '' @ [CHR 0x27] @ ''y'' @ [CHR 0x27] @ '' ) == objs->long_get_req.get_table()'') 259 (equals (replicate 509 CHR ''y'') (\<lambda>ob. get_table (long_get_req ob))),
     ASSERT ''\"line_items\" == objs->create_req_2.get_table()'' 260 (equals ''line_items'' (\<lambda>ob. get_table (create_req_2 ob)))]"

definition test_message_get_value :: "TestObjs test_step" where
  "test_message_get_value = steps [
     ASSERT ''\"47374\" == objs->push_req.get_value()'' 265 (equals ''47374'' (\<lambda>ob. get_value (push_req ob))),
     ASSERT ''\"10012\" == objs->data_resp.get_value()'' 266 (equals ''10012'' (\<lambda>ob. get_value (data_resp ob)))]"

definition test_message_get_key :: "TestObjs test_step" where
  "test_message_get_key = steps [
     ASSERT ''\"acct123\" == objs->set_req.get_key()'' 271 (equals ''acct123'' (\<lambda>ob. get_key (set_req ob))),
     ASSERT ''\"acct123\" == objs->get_req.get_key()'' 272 (equals ''acct123'' (\<lambda>ob. get_key (get_req ob)))]"

definition test_message_is_valid :: "TestObjs test_step" where
  "test_message_is_valid = steps [
     ASSERT ''objs->login_req.is_valid()'' 277 (check (\<lambda>ob. is_valid (login_req ob))),
     ASSERT ''objs->create_req.is_valid()'' 279 (check (\<lambda>ob. is_valid (create_req ob))),
     ASSERT ''objs->push_req.is_valid()'' 281 (check (\<lambda>ob. is_valid (push_req ob))),
     ASSERT ''objs->pop_req.is_valid()'' 283 (check (\<lambda>ob. is_valid (pop_req ob))),
     ASSERT ''objs->set_req.is_valid()'' 285 (check (\<lambda>ob. is_valid (set_req ob))),
     ASSERT ''objs->get_req.is_valid()'' 286 (check (\<lambda>ob. is_valid (get_req ob))),
     ASSERT ''objs->add_req.is_valid()'' 287 (check (\<lambda>ob. is_valid (add_req ob))),
     ASSERT ''objs->mul_req.is_valid()'' 288 (check (\<lambda>ob. is_valid (mul_req ob))),
     ASSERT ''objs->sub_req.is_valid()'' 289 (check (\<lambda>ob. is_valid (sub_req ob))),
     ASSERT ''objs->div_req.is_valid()'' 290 (check (\<lambda>ob. is_valid (div_req ob))),
     ASSERT ''objs->bye_req.is_valid()'' 291 (check (\<lambda>ob. is_valid (bye_req ob))),
     ASSERT ''objs->ok_resp.is_valid()'' 292 (check (\<lambda>ob. is_valid (ok_resp ob))),
     ASSERT ''objs->failed_resp.is_valid()'' 293 (check (\<lambda>ob. is_valid (failed_resp ob))),
     ASSERT ''objs->error_resp.is_valid()'' 294 (check (\<lambda>ob. is_valid (error_resp ob))),
     ASSERT ''objs->data_resp.is_valid()'' 295 (check (\<lambda>ob. is_valid (data_resp ob))),
     ASSERT ''objs->long_get_req.is_valid()'' 296 (check (\<lambda>ob. is_valid (long_get_req ob))),
     ASSERT ''objs->create_req_2.is_valid()'' 297 (check (\<lambda>ob. is_valid (create_req_2 ob))),
     ASSERT ''!objs->invalid_login_req.is_valid()'' 298 (check (\<lambda>ob. \<not> is_valid (invalid_login_req ob))),
     ASSERT ''!objs->invalid_create_req.is_valid()'' 299 (check (\<lambda>ob. \<not> is_valid (invalid_create_req ob))),
     ASSERT ''!objs->invalid_data_resp.is_valid()'' 300 (check (\<lambda>ob. \<not> is_valid (invalid_data_resp ob)))]"

definition test_message_serialization_encode :: "TestObjs test_step" where
  "test_message_serialization_encode = steps [
     with_value (\<lambda>ob. encode (login_req ob)) (\<lambda>s. [
       ASSERT (''\"LOGIN alice'' @ [CHR 0x5C] @ ''n\" == s'') 308 (check (\<lambda>ob. ''LOGIN alice\<newline>'' = s)),
       with_value (\<lambda>ob. encode (create_req ob)) (\<lambda>s. [
         ASSERT (''\"CREATE accounts'' @ [CHR 0x5C] @ ''n\" == s'') 311 (check (\<lambda>ob. ''CREATE accounts\<newline>'' = s)),
         with_value (\<lambda>ob. encode (push_req ob)) (\<lambda>s. [
           ASSERT (''\"PUSH 47374'' @ [CHR 0x5C] @ ''n\" == s'') 314 (check (\<lambda>ob. ''PUSH 47374\<newline>'' = s)),
           with_value (\<lambda>ob. encode (pop_req ob)) (\<lambda>s. [
             ASSERT (''\"POP'' @ [CHR 0x5C] @ ''n\" == s'') 317 (check (\<lambda>ob. ''POP\<newline>'' = s)),
             with_value (\<lambda>ob. encode (set_req ob)) (\<lambda>s. [
               ASSERT (''\"SET accounts acct123'' @ [CHR 0x5C] @ ''n\" == s'') 320 (check (\<lambda>ob. ''SET accounts acct123\<newline>'' = s)),
               with_value (\<lambda>ob. encode (data_resp ob)) (\<lambda>s. [
                 ASSERT (''\"DATA 10012'' @ [CHR 0x5C] @ ''n\" == s'') 323 (check (\<lambda>ob. ''DATA 10012\<newline>'' = s))])])])])])])]"

definition test_message_serialization_encode_long :: "TestObjs test_step" where
  "test_message_serialization_encode_long = (let expected_str = ''GET '' @ replicate 509 CHR ''y'' @ '' '' @ replicate 509 CHR ''y'' @ ''\<newline>'' in
    steps [
     with_value (\<lambda>ob. encode (long_get_req ob)) (\<lambda>actual_str. [
       ASSERT ''expected_str == actual_str'' 331 (check (\<lambda>ob. expected_str = actual_str))])])"

definition test_message_serialization_encode_too_long :: "TestObjs test_step" where
  "test_message_serialization_encode_too_long = steps [
     expect_exception (\<lambda>ob. map_sum id (\<lambda>_. ob) (encode (invalid_too_long ob))) is_InvalidMessage ''exception was not thrown for too-long encoded message'']"

definition test_message_serialization_decode :: "TestObjs test_step" where
  "test_message_serialization_decode = steps [
     with_value (\<lambda>ob. decode (encoded_login_req ob)) (\<lambda>msg. [
       ASSERT ''MessageType::LOGIN == msg.get_message_type()'' 350 (check (\<lambda>ob. get_message_type (msg) = LOGIN)),
       ASSERT ''1 == msg.get_num_args()'' 351 (check (\<lambda>ob. 1 = get_num_args (msg))),
       ASSERT ''\"alice\" == msg.get_username()'' 352 (equals ''alice'' (\<lambda>ob. get_username (msg))),
       with_value (\<lambda>ob. decode (encoded_create_req ob)) (\<lambda>msg1. [
         ASSERT ''MessageType::CREATE == msg1.get_message_type()'' 356 (check (\<lambda>ob. get_message_type (msg1) = CREATE)),
         ASSERT ''1 == msg1.get_num_args()'' 357 (check (\<lambda>ob. 1 = get_num_args (msg1))),
         ASSERT ''\"invoices\" == msg1.get_table()'' 358 (equals ''invoices'' (\<lambda>ob. get_table (msg1))),
         with_value (\<lambda>ob. decode (encoded_data_resp ob)) (\<lambda>msg2. [
           ASSERT ''MessageType::DATA == msg2.get_message_type()'' 362 (check (\<lambda>ob. get_message_type (msg2) = DATA)),
           ASSERT ''1 == msg2.get_num_args()'' 363 (check (\<lambda>ob. 1 = get_num_args (msg2))),
           ASSERT ''\"90125\" == msg2.get_value()'' 364 (equals ''90125'' (\<lambda>ob. get_value (msg2))),
           with_value (\<lambda>ob. decode (encoded_get_req ob)) (\<lambda>msg3. [
             ASSERT ''MessageType::GET == msg3.get_message_type()'' 368 (check (\<lambda>ob. get_message_type (msg3) = GET)),
             ASSERT ''2 == msg3.get_num_args()'' 369 (check (\<lambda>ob. 2 = get_num_args (msg3))),
             ASSERT ''\"lineitems\" == msg3.get_table()'' 370 (equals ''lineitems'' (\<lambda>ob. get_table (msg3))),
             ASSERT ''\"foobar\" == msg3.get_key()'' 371 (equals ''foobar'' (\<lambda>ob. get_key (msg3))),
             with_value (\<lambda>ob. decode (encoded_failed_resp ob)) (\<lambda>msg4. [
               ASSERT ''MessageType::FAILED == msg4.get_message_type()'' 375 (check (\<lambda>ob. get_message_type (msg4) = FAILED)),
               ASSERT ''1 == msg4.get_num_args()'' 376 (check (\<lambda>ob. 1 = get_num_args (msg4))),
               ASSERT ''\"Something went wrong, shucks!\" == msg4.get_quoted_text()'' 377 (equals ''Something went wrong, shucks!'' (\<lambda>ob. get_quoted_text (msg4))),
               with_value (\<lambda>ob. decode (encoded_error_resp ob)) (\<lambda>msg5. [
                 ASSERT ''MessageType::ERROR == msg5.get_message_type()'' 381 (check (\<lambda>ob. get_message_type (msg5) = ERROR)),
                 ASSERT ''1 == msg5.get_num_args()'' 382 (check (\<lambda>ob. 1 = get_num_args (msg5))),
                 ASSERT ''\"Wow, something really got messed up\" == msg5.get_quoted_text()'' 383 (equals ''Wow, something really got messed up'' (\<lambda>ob. get_quoted_text (msg5))),
                 with_value (\<lambda>ob. decode (encoded_bye_req ob)) (\<lambda>msg6. [
                   ASSERT ''MessageType::BYE == msg6.get_message_type()'' 387 (check (\<lambda>ob. get_message_type (msg6) = BYE)),
                   ASSERT ''0 == msg6.get_num_args()'' 388 (check (\<lambda>ob. 0 = get_num_args (msg6)))])])])])])])])]"

definition test_message_serialization_decode_invalid :: "TestObjs test_step" where
  "test_message_serialization_decode_invalid = steps [
     expect_exception (\<lambda>ob. map_sum id (\<lambda>_. ob) (decode (encoded_push_req_no_nl ob))) is_InvalidMessage ''No exception thrown decoding message lacking terminating newline'',
     expect_exception (\<lambda>ob. map_sum id (\<lambda>_. ob) (decode (encoded_get_req_too_long ob))) is_InvalidMessage ''No exception thrown decoding message that is too long'']"

definition test_table_has_key :: "TestObjs test_step" where
  "test_table_has_key = steps [
     locked invoices set_invoices [
       change (invoices_update (table_set ''abc123'' ''1000'')),
       change (invoices_update (table_set ''xyz456'' ''1318''))],
     locked invoices set_invoices [
       ASSERT ''objs->invoices->has_key( \"abc123\" )'' 423 (check (\<lambda>ob. has_key ''abc123'' (invoices ob))),
       ASSERT ''objs->invoices->has_key( \"xyz456\" )'' 424 (check (\<lambda>ob. has_key ''xyz456'' (invoices ob))),
       ASSERT ''!objs->invoices->has_key( \"nonexistent\" )'' 426 (check (\<lambda>ob. \<not> has_key ''nonexistent'' (invoices ob)))]]"

definition test_table_get :: "TestObjs test_step" where
  "test_table_get = steps [
     locked invoices set_invoices [
       change (invoices_update (table_set ''abc123'' ''1000'')),
       change (invoices_update (table_set ''xyz456'' ''1318''))],
     locked invoices set_invoices [
       ASSERT ''\"1000\" == objs->invoices->get( \"abc123\" )'' 443 (gets ''1000'' invoices set_invoices ''abc123''),
       ASSERT ''\"1318\" == objs->invoices->get( \"xyz456\" )'' 444 (gets ''1318'' invoices set_invoices ''xyz456''),
       ASSERT ''!objs->invoices->has_key( \"nonexistent\" )'' 446 (check (\<lambda>ob. \<not> has_key ''nonexistent'' (invoices ob)))]]"

definition test_table_commit_changes :: "TestObjs test_step" where
  "test_table_commit_changes = steps [
     locked invoices set_invoices [
       change (invoices_update (table_set ''abc123'' ''1000'')),
       change (invoices_update (table_set ''xyz456'' ''1318''))],
     locked invoices set_invoices [
       ASSERT ''\"1000\" == objs->invoices->get( \"abc123\" )'' 463 (gets ''1000'' invoices set_invoices ''abc123''),
       ASSERT ''\"1318\" == objs->invoices->get( \"xyz456\" )'' 464 (gets ''1318'' invoices set_invoices ''xyz456''),
       ASSERT ''!objs->invoices->has_key( \"nonexistent\" )'' 466 (check (\<lambda>ob. \<not> has_key ''nonexistent'' (invoices ob)))],
     locked invoices set_invoices [
       change (invoices_update commit_changes),
       ASSERT ''\"1000\" == objs->invoices->get( \"abc123\" )'' 476 (gets ''1000'' invoices set_invoices ''abc123''),
       ASSERT ''\"1318\" == objs->invoices->get( \"xyz456\" )'' 477 (gets ''1318'' invoices set_invoices ''xyz456''),
       ASSERT ''!objs->invoices->has_key( \"nonexistent\" )'' 479 (check (\<lambda>ob. \<not> has_key ''nonexistent'' (invoices ob)))]]"

definition test_table_rollback_changes :: "TestObjs test_step" where
  "test_table_rollback_changes = steps [
     locked invoices set_invoices [
       change (invoices_update (table_set ''abc123'' ''1000'')),
       change (invoices_update (table_set ''xyz456'' ''1318''))],
     locked invoices set_invoices [
       ASSERT ''\"1000\" == objs->invoices->get( \"abc123\" )'' 496 (gets ''1000'' invoices set_invoices ''abc123''),
       ASSERT ''\"1318\" == objs->invoices->get( \"xyz456\" )'' 497 (gets ''1318'' invoices set_invoices ''xyz456''),
       ASSERT ''!objs->invoices->has_key( \"nonexistent\" )'' 499 (check (\<lambda>ob. \<not> has_key ''nonexistent'' (invoices ob)))],
     locked invoices set_invoices [
       change (invoices_update rollback_changes)],
     locked invoices set_invoices [
       ASSERT ''!objs->invoices->has_key( \"abc123\" )'' 513 (check (\<lambda>ob. \<not> has_key ''abc123'' (invoices ob))),
       ASSERT ''!objs->invoices->has_key( \"xyz456\" )'' 514 (check (\<lambda>ob. \<not> has_key ''xyz456'' (invoices ob))),
       ASSERT ''!objs->invoices->has_key( \"nonexistent\" )'' 515 (check (\<lambda>ob. \<not> has_key ''nonexistent'' (invoices ob)))]]"

definition test_table_commit_and_rollback :: "TestObjs test_step" where
  "test_table_commit_and_rollback = steps [
     locked line_items set_line_items [
       change (line_items_update (table_set ''apples'' ''100'')),
       change (line_items_update (table_set ''bananas'' ''150''))],
     locked line_items set_line_items [
       change (line_items_update commit_changes)],
     locked line_items set_line_items [
       ASSERT ''\"100\" == objs->line_items->get( \"apples\" )'' 543 (gets ''100'' line_items set_line_items ''apples''),
       ASSERT ''\"150\" == objs->line_items->get( \"bananas\" )'' 544 (gets ''150'' line_items set_line_items ''bananas'')],
     locked line_items set_line_items [
       change (line_items_update (table_set ''oranges'' ''220''))],
     locked line_items set_line_items [
       ASSERT ''\"100\" == objs->line_items->get( \"apples\" )'' 558 (gets ''100'' line_items set_line_items ''apples''),
       ASSERT ''\"150\" == objs->line_items->get( \"bananas\" )'' 559 (gets ''150'' line_items set_line_items ''bananas''),
       ASSERT ''\"220\" == objs->line_items->get( \"oranges\" )'' 560 (gets ''220'' line_items set_line_items ''oranges'')],
     locked line_items set_line_items [
       change (line_items_update rollback_changes)],
     locked line_items set_line_items [
       ASSERT ''\"100\" == objs->line_items->get( \"apples\" )'' 575 (gets ''100'' line_items set_line_items ''apples''),
       ASSERT ''\"150\" == objs->line_items->get( \"bananas\" )'' 576 (gets ''150'' line_items set_line_items ''bananas''),
       ASSERT ''!objs->line_items->has_key( \"oranges\" )'' 577 (check (\<lambda>ob. \<not> has_key ''oranges'' (line_items ob)))]]"

definition test_value_stack :: "TestObjs test_step" where
  "test_value_stack = steps [
     ASSERT ''objs->valstack.is_empty()'' 584 (check (\<lambda>ob. is_empty (valstack ob))),
     change (valstack_update (push ''foo'')),
     ASSERT ''!objs->valstack.is_empty()'' 588 (check (\<lambda>ob. \<not> is_empty (valstack ob))),
     change (valstack_update (push ''bar'')),
     ASSERT ''!objs->valstack.is_empty()'' 590 (check (\<lambda>ob. \<not> is_empty (valstack ob))),
     change (valstack_update (push ''12345'')),
     ASSERT ''!objs->valstack.is_empty()'' 592 (check (\<lambda>ob. \<not> is_empty (valstack ob))),
     ASSERT ''\"12345\" == objs->valstack.get_top()'' 595 (equals ''12345'' (\<lambda>ob. get_top (valstack ob))),
     attempt (\<lambda>ob. map_sum id (\<lambda>v. ob\<lparr>valstack := v\<rparr>) (pop (valstack ob))),
     ASSERT ''!objs->valstack.is_empty()'' 597 (check (\<lambda>ob. \<not> is_empty (valstack ob))),
     ASSERT ''\"bar\" == objs->valstack.get_top()'' 598 (equals ''bar'' (\<lambda>ob. get_top (valstack ob))),
     attempt (\<lambda>ob. map_sum id (\<lambda>v. ob\<lparr>valstack := v\<rparr>) (pop (valstack ob))),
     ASSERT ''!objs->valstack.is_empty()'' 600 (check (\<lambda>ob. \<not> is_empty (valstack ob))),
     ASSERT ''\"foo\" == objs->valstack.get_top()'' 601 (equals ''foo'' (\<lambda>ob. get_top (valstack ob))),
     attempt (\<lambda>ob. map_sum id (\<lambda>v. ob\<lparr>valstack := v\<rparr>) (pop (valstack ob))),
     ASSERT ''objs->valstack.is_empty()'' 605 (check (\<lambda>ob. is_empty (valstack ob)))]"

definition test_value_stack_exceptions :: "TestObjs test_step" where
  "test_value_stack_exceptions = steps [
     ASSERT ''objs->valstack.is_empty()'' 610 (check (\<lambda>ob. is_empty (valstack ob))),
     expect_exception (\<lambda>ob. map_sum id (\<lambda>_. ob) (get_top (valstack ob))) is_OperationException (''ValueStack didn'' @ [CHR 0x27] @ ''t throw exception for get_top() on empty stack''),
     expect_exception (\<lambda>ob. map_sum id (\<lambda>v. ob\<lparr>valstack := v\<rparr>) (pop (valstack ob))) is_OperationException (''ValueStack didn'' @ [CHR 0x27] @ ''t throw exception for pop() on empty stack'')]"

definition unit_tests :: "(string \<times> TestObjs test_step) list" where
  "unit_tests =
     [(''test_message_default_ctor'', test_message_default_ctor),
      (''test_message_get_message_type'', test_message_get_message_type),
      (''test_message_get_username'', test_message_get_username),
      (''test_message_get_table'', test_message_get_table),
      (''test_message_get_value'', test_message_get_value),
      (''test_message_get_key'', test_message_get_key),
      (''test_message_is_valid'', test_message_is_valid),
      (''test_message_serialization_encode'', test_message_serialization_encode),
      (''test_message_serialization_encode_long'', test_message_serialization_encode_long),
      (''test_message_serialization_encode_too_long'', test_message_serialization_encode_too_long),
      (''test_message_serialization_decode'', test_message_serialization_decode),
      (''test_message_serialization_decode_invalid'', test_message_serialization_decode_invalid),
      (''test_table_has_key'', test_table_has_key),
      (''test_table_get'', test_table_get),
      (''test_table_commit_changes'', test_table_commit_changes),
      (''test_table_rollback_changes'', test_table_rollback_changes),
      (''test_table_commit_and_rollback'', test_table_commit_and_rollback),
      (''test_value_stack'', test_value_stack),
      (''test_value_stack_exceptions'', test_value_stack_exceptions)]"

text \<open>\<open>main\<close>: its exit status and what the framework has recorded.\<close>

definition unit_tests_main :: "string list \<Rightarrow> (int \<times> tctest) option" where
  "unit_tests_main argv =
     (let st = (if length argv \<ge> 2 then tctest_start\<lparr>testname_to_execute := Some (argv ! 1)\<rparr> else tctest_start)
      in map_option TEST_FINI (run_tests (Done fixture) unit_tests (TEST_INIT st)))"

subsection \<open>The tests pass\<close>

definition leads :: "'o \<Rightarrow> 'o test_step \<Rightarrow> 'o \<Rightarrow> bool" where
  "leads ob f ob' \<longleftrightarrow> (\<forall>st. \<exists>l. f (ob, st) = (Done (), ob', st\<lparr>assertion_line := l\<rparr>))"

lemma leads_passes: "leads ob f ob' \<Longrightarrow> passes ob f"
  unfolding leads_def passes_def by blast

lemma assertion_line_same: "st\<lparr>assertion_line := assertion_line st\<rparr> = st" for st :: tctest
  by simp

lemma leads_Nil: "leads ob (steps []) ob"
  unfolding leads_def by (metis assertion_line_same steps.simps(1))

lemma leads_Cons: "leads ob x ob1 \<Longrightarrow> leads ob1 (steps xs) ob2 \<Longrightarrow> leads ob (steps (x # xs)) ob2"
  unfolding leads_def
proof (intro allI)
  fix st
  assume x: "\<forall>st. \<exists>l. x (ob, st) = (Done (), ob1, st\<lparr>assertion_line := l\<rparr>)"
    and xs: "\<forall>st. \<exists>l. steps xs (ob1, st) = (Done (), ob2, st\<lparr>assertion_line := l\<rparr>)"
  from x obtain l where "x (ob, st) = (Done (), ob1, st\<lparr>assertion_line := l\<rparr>)" by blast
  moreover from xs obtain l' where
    "steps xs (ob1, st\<lparr>assertion_line := l\<rparr>) = (Done (), ob2, (st\<lparr>assertion_line := l\<rparr>)\<lparr>assertion_line := l'\<rparr>)" by blast
  ultimately show "\<exists>l. steps (x # xs) (ob, st) = (Done (), ob2, st\<lparr>assertion_line := l\<rparr>)" by auto
qed

lemma leads_ASSERT: "x ob = (Inr True, ob') \<Longrightarrow> leads ob (ASSERT txt n x) ob'"
  by (auto simp: leads_def ASSERT_def evaluate_def)

lemma leads_check: "b ob \<Longrightarrow> leads ob (ASSERT txt n (check b)) ob"
  by (rule leads_ASSERT) (simp add: check_def)

lemma leads_equals: "r ob = Inr v \<Longrightarrow> leads ob (ASSERT txt n (equals v r)) ob"
  by (rule leads_ASSERT) (simp add: equals_def)

lemma leads_with_value: "r ob = Inr x \<Longrightarrow> leads ob (steps (body x)) ob' \<Longrightarrow> leads ob (with_value r body) ob'"
  by (simp add: leads_def with_value_def)

lemma leads_expect: "f ob = Inl (Raise e) \<Longrightarrow> caught_by e \<Longrightarrow> leads ob (expect_exception f caught_by msg) ob"
  by (simp add: leads_def expect_exception_def) (metis assertion_line_same)

lemmas leads_intros = leads_Cons leads_Nil leads_check leads_equals

lemmas message_tests = check_def fixture_def get_arg_def get_username_def get_table_def get_key_def get_value_def
  get_quoted_text_def

lemma accessors_pass:
  "\<exists>ob. leads fixture test_message_default_ctor ob"
  "\<exists>ob. leads fixture test_message_get_message_type ob"
  "\<exists>ob. leads fixture test_message_get_username ob"
  "\<exists>ob. leads fixture test_message_get_table ob"
  "\<exists>ob. leads fixture test_message_get_value ob"
  "\<exists>ob. leads fixture test_message_get_key ob"
  unfolding test_message_default_ctor_def test_message_get_message_type_def test_message_get_username_def
    test_message_get_table_def test_message_get_value_def test_message_get_key_def
  by (rule exI, (rule leads_intros | simp add: message_tests)+)+

lemma valid_replicate: "identifier_is_valid (replicate 509 CHR ''y'')"
proof -
  have "replicate 509 CHR ''y'' = CHR ''y'' # replicate 508 CHR ''y''" by (simp add: numeral_eq_Suc)
  then show ?thesis by (simp add: identifier_start_def identifier_rest_def schar_def Let_def list_all_iff)
qed

lemma validity_passes: "\<exists>ob. leads fixture test_message_is_valid ob"
proof -
  have "is_valid (long_get_req fixture)"
    by (simp add: fixture_def is_valid_def valid_number_of_args_def valid_replicate)
  moreover have "is_valid (login_req fixture)" "is_valid (create_req fixture)" "is_valid (push_req fixture)"
    "is_valid (pop_req fixture)" "is_valid (set_req fixture)" "is_valid (get_req fixture)" "is_valid (add_req fixture)"
    "is_valid (mul_req fixture)" "is_valid (sub_req fixture)" "is_valid (div_req fixture)" "is_valid (bye_req fixture)"
    "is_valid (ok_resp fixture)" "is_valid (failed_resp fixture)" "is_valid (error_resp fixture)"
    "is_valid (data_resp fixture)" "is_valid (create_req_2 fixture)" "\<not> is_valid (invalid_login_req fixture)"
    "\<not> is_valid (invalid_create_req fixture)" "\<not> is_valid (invalid_data_resp fixture)"
    by (simp add: fixture_def, code_simp)+
  ultimately show ?thesis
    unfolding test_message_is_valid_def by (intro exI) (rule leads_intros | assumption)+
qed

lemma encode_passes:
  "\<exists>ob. leads fixture test_message_serialization_encode ob"
  "\<exists>ob. leads fixture test_message_serialization_encode_long ob"
  "\<exists>ob. leads fixture test_message_serialization_encode_too_long ob"
  unfolding test_message_serialization_encode_def test_message_serialization_encode_long_def
    test_message_serialization_encode_too_long_def Let_def
  by (rule exI, (rule leads_intros leads_with_value leads_expect
        | simp add: fixture_def encode_def MAX_ENCODED_LEN_def Let_def)+)+

lemma decode_fixture:
  "decode (encoded_login_req fixture) = Inr (mk_message LOGIN [''alice''])"
  "decode (encoded_create_req fixture) = Inr (mk_message CREATE [''invoices''])"
  "decode (encoded_data_resp fixture) = Inr (mk_message DATA [''90125''])"
  "decode (encoded_get_req fixture) = Inr (mk_message GET [''lineitems'', ''foobar''])"
  "decode (encoded_failed_resp fixture) = Inr (mk_message FAILED [''Something went wrong, shucks!''])"
  "decode (encoded_error_resp fixture) = Inr (mk_message ERROR [''Wow, something really got messed up''])"
  "decode (encoded_bye_req fixture) = Inr (mk_message BYE [])"
  by (simp add: fixture_def, code_simp)+

lemma decode_invalid_fixture:
  "decode (encoded_push_req_no_nl fixture) = Inl (Raise (InvalidMessage ''Message not terminated with new line char''))"
  "decode (encoded_get_req_too_long fixture) = Inl (Raise (InvalidMessage ''Message length exceeds max length''))"
  by (simp_all add: fixture_def decode_def MAX_ENCODED_LEN_def)

lemma decode_passes:
  "\<exists>ob. leads fixture test_message_serialization_decode ob"
  "\<exists>ob. leads fixture test_message_serialization_decode_invalid ob"
  unfolding test_message_serialization_decode_def test_message_serialization_decode_invalid_def
  by (rule exI, (rule leads_intros leads_with_value leads_expect
        | simp add: decode_fixture decode_invalid_fixture get_arg_def get_username_def get_table_def get_key_def
            get_value_def get_quoted_text_def)+)+

text \<open>
  The tests of the tables and of the value stack are evaluated, from any state of the framework and whatever the
  messages of the fixture are.
\<close>

abbreviation "framework_state a b c d e f g h i j \<equiv> tctest_ext a b c d e f g h i j ()"

lemma passes_evaluate:
  assumes "\<And>v1 v2 v3 v4 v5 v6 v7 v8 v9 v10 v11 v12 v13 v14 v15
      v16 v17 v18 v19 v20 v21 v22 v23 v24 v25 v26 v27 v28 v29 v30 v31 a b c d e f g h i j.
    (\<lambda>(r, ob, st). r = Done () \<and> st = framework_state l b c d e f g h i j)
      (x (TestObjs_ext v1 v2 v3 v4 v5 v6 v7 v8 v9 v10 v11 v12 v13 v14 v15
      v16 v17 v18 v19 v20 v21 v22 v23 v24 v25 v26 v27 v28 v29 v30 v31
        (new_table ''invoices'') (new_table ''line_items'') ValueStack (), framework_state a b c d e f g h i j))"
  shows "passes fixture x"
  unfolding passes_def
proof
  fix st
  obtain a b c d e f g h i j where st: "st = framework_state a b c d e f g h i j"
    by (cases st) auto
  show "\<exists>ob' l. x (fixture, st) = (Done (), ob', st\<lparr>assertion_line := l\<rparr>)"
    using assms [of b c d e f g h i j "default_message fixture" "login_req fixture" "create_req fixture" "push_req fixture"
        "pop_req fixture" "set_req fixture" "get_req fixture" "add_req fixture" "mul_req fixture" "sub_req fixture"
        "div_req fixture" "bye_req fixture" "ok_resp fixture" "failed_resp fixture" "error_resp fixture"
        "data_resp fixture" "long_get_req fixture" "create_req_2 fixture" "invalid_login_req fixture"
        "invalid_create_req fixture" "invalid_data_resp fixture" "invalid_too_long fixture"
        "encoded_login_req fixture" "encoded_create_req fixture" "encoded_data_resp fixture"
        "encoded_get_req fixture" "encoded_failed_resp fixture" "encoded_error_resp fixture"
        "encoded_bye_req fixture" "encoded_push_req_no_nl fixture" "encoded_get_req_too_long fixture" a]
    by (auto simp: st fixture_def)
qed

lemma tables_and_stack_pass:
  "passes fixture test_table_has_key"
  "passes fixture test_table_get"
  "passes fixture test_table_commit_changes"
  "passes fixture test_table_rollback_changes"
  "passes fixture test_table_commit_and_rollback"
  "passes fixture test_value_stack"
  "passes fixture test_value_stack_exceptions"
  subgoal by (rule passes_evaluate [where l = 426], code_simp)
  subgoal by (rule passes_evaluate [where l = 446], code_simp)
  subgoal by (rule passes_evaluate [where l = 479], code_simp)
  subgoal by (rule passes_evaluate [where l = 515], code_simp)
  subgoal by (rule passes_evaluate [where l = 577], code_simp)
  subgoal by (rule passes_evaluate [where l = 605], code_simp)
  subgoal by (rule passes_evaluate [where l = 610], code_simp)
  done

lemma unit_tests_pass_each: "\<forall>t\<in>set unit_tests. passes fixture (snd t)"
  using accessors_pass validity_passes encode_passes decode_passes tables_and_stack_pass
  by (auto simp: unit_tests_def intro: leads_passes)

text \<open>C40. The unit tests pass. Run without an argument, the program executes all tests, prints \<open>passed!\<close> for
  each and \<open>All tests passed!\<close>, and exits with status 0; with the name of a test it does so for that
  test alone; with another name it executes no test and exits with status 1.
\<close>

theorem unit_tests_pass:
  "\<exists>l. unit_tests_main argv =
    (let names = map fst unit_tests;
         wanted = (if length argv < 2 then None else Some (argv ! 1));
         executed = filter (\<lambda>n. wanted = None \<or> wanted = Some n) names;
         st = (TEST_INIT tctest_start)\<lparr>testname_to_execute := wanted, num_executed := int (length executed),
                assertion_line := l\<rparr>
     in Some (if executed = [] then (1, st\<lparr>out := ''No tests were executed!\<newline>''\<rparr>)
              else (0, st\<lparr>out := concat (map (\<lambda>n. n @ ''...passed!\<newline>'') executed) @ ''All tests passed!\<newline>''\<rparr>)))"
proof -
  define wanted where "wanted = (if length argv < 2 then None else Some (argv ! 1))"
  define st where "st = (TEST_INIT tctest_start)\<lparr>testname_to_execute := wanted\<rparr>"
  define executed where "executed = filter (\<lambda>n. wanted = None \<or> wanted = Some n) (map fst unit_tests)"
  have st: "\<not> on_test_executed st" "\<not> on_complete st" "failures st = 0" "num_executed st = 0" "out st = []"
    "selected st unit_tests = executed"
    by (simp_all add: st_def TEST_INIT_def tctest_register_signal_handlers_def tctest_start_def selected_def executed_def)
  have main: "unit_tests_main argv = map_option TEST_FINI (run_tests (Done fixture) unit_tests st)"
    by (simp add: unit_tests_main_def st_def wanted_def TEST_INIT_def tctest_register_signal_handlers_def
        tctest_start_def)
  obtain l where "run_tests (Done fixture) unit_tests st =
    Some (st\<lparr>num_executed := int (length executed), assertion_line := l,
      out := concat (map (\<lambda>n. n @ ''...passed!\<newline>'') executed)\<rparr>)"
    using run_tests_passes [OF unit_tests_pass_each st(1)] unfolding st by auto
  then have "unit_tests_main argv =
    Some (TEST_FINI (st\<lparr>num_executed := int (length executed), assertion_line := l,
      out := concat (map (\<lambda>n. n @ ''...passed!\<newline>'') executed)\<rparr>))"
    by (simp only: main option.map)
  also have "\<dots> = Some (if executed = []
      then (1, st\<lparr>num_executed := int (length executed), assertion_line := l, out := ''No tests were executed!\<newline>''\<rparr>)
      else (0, st\<lparr>num_executed := int (length executed), assertion_line := l,
        out := concat (map (\<lambda>n. n @ ''...passed!\<newline>'') executed) @ ''All tests passed!\<newline>''\<rparr>))"
    using st by (cases "executed = []") (simp_all add: TEST_FINI_def print_def Let_def)
  finally show ?thesis
    unfolding Let_def executed_def [symmetric] wanted_def [symmetric] st_def [symmetric] by (rule exI [of _ l])
qed

end
