(* ===== verification/Spec2Isabelle.thy ===== *)
theory Spec2Isabelle
  imports Scenarios Network Progress Descriptors Startup Sio Rollback Serializability Guard System_Calls Unit_Tests
begin

text \<open>
  Verification of a multithreaded key/value server and its command line clients (C++, with the
  C support library \<open>csapp.c\<close>). This theory imports the whole development and states the
  properties of the running server.

  \<^bold>\<open>The program and the theories.\<close> A client sends lines; the server keeps one thread and one
  \<open>ClientConnection\<close> per client, and all of them share a map of named tables. A table holds
  committed values and the uncommitted changes of the transaction that has locked it.

  \<^item> \<open>Prelude\<close>: exceptions (\<open>exceptions.h\<close>), failures, \<open>std::map\<close>.
  \<^item> \<open>Message\<close>: \<open>message.h\<close>, \<open>message.cpp\<close>. A message is its type and its list of arguments.
  \<^item> \<open>Serialization\<close>: \<open>message_serialization.cpp\<close>. The scanner of \<open>decode\<close> is kept loop by loop
    with its index, each \<open>at\<close> being a read that can fail.
  \<^item> \<open>Value_Stack\<close>: \<open>value_stack.cpp\<close>, with the 32-bit counter kept beside the stack.
  \<^item> \<open>Table\<close>: \<open>table.cpp\<close>. Iterators belong to a map, so that the comparison with the end of the
    wrong map comes out as in the code; a mutex is its owner.
  \<^item> \<open>Numeric\<close>: \<open>std::stoi\<close>, \<open>std::to_string\<close> and the 64-bit operations of the requests.
  \<^item> \<open>Rio\<close>, \<open>Csapp_Io\<close>: the robust I/O package of \<open>csapp.c\<close>. The results of \<open>read\<close> and
    \<open>write\<close> are lists of events (data, interruption, error, end of file).
  \<^item> \<open>Sio\<close>, \<open>Startup\<close>: signal-safe output, opening of sockets, \<open>Server::listen\<close> and \<open>main\<close>.
  \<^item> \<open>Threads\<close>: programs of atomic actions and the locale \<open>thread_logic\<close>, a thread-local check
    that is sound when threads are interleaved.
  \<^item> \<open>Server\<close>: \<open>server.cpp\<close>. Its state (map, mutex, tables by address), the atomic actions, the
    locking discipline, and the interpretation of \<open>thread_logic\<close>.
  \<^item> \<open>Client_Connection\<close>: \<open>client_connection.cpp\<close>. Every handler, the \<open>try\<close> block and the
    \<open>catch\<close> clauses as programs that transform the connection and may fail.
  \<^item> \<open>Connection_Safety\<close>, \<open>Termination\<close>: each handler passes the check, and the number of its
    actions is bounded.
  \<^item> \<open>Concurrency\<close>, \<open>Scenarios\<close>: the process with any number of threads (\<open>server_loop\<close>,
    \<open>client_worker\<close>) as a step relation, its invariant, and executable runs.
  \<^item> \<open>Rollback\<close>: a request that finds a table locked ends its transaction, for every interleaving.
  \<^item> \<open>Two_Phase\<close>, \<open>Serializability\<close>: a transaction commits or undoes all its tables after its last
    access, so that what all connections did to all tables is the result of running their
    transactions one after the other.
  \<^item> \<open>Descriptors\<close>: which thread owns which open descriptor, from \<open>accept\<close> to the destructor.
  \<^item> \<open>Progress\<close>: budgets of steps; all runs of the threads are finite, and where they end.
  \<^item> \<open>Key_Value_Spec\<close>, \<open>Refinement\<close>, \<open>Session\<close>: the protocol as a function on an abstract
    state, and the proof that a round, and then a session over a byte stream, implements it.
  \<^item> \<open>Clients\<close>, \<open>Client_Service\<close>, \<open>Network\<close>: \<open>get_value.cpp\<close>, \<open>set_value.cpp\<close>,
    \<open>incr_value.cpp\<close>; the interface they rely on (locale \<open>service\<close>); and the clients connected to
    the modelled server, which provides it.
  \<^item> \<open>Guard\<close>: \<open>guard.h\<close>, scoped locking, which \<open>find_table\<close> and \<open>create_table\<close> are instances of.
  \<^item> \<open>System_Calls\<close>: the wrappers of \<open>csapp.c\<close> around single calls. The call is a parameter, a
    function on the state of the rest of the world.
  \<^item> \<open>Test_Framework\<close>, \<open>Unit_Tests\<close>: \<open>tctest.h\<close>, \<open>tctest.c\<close> and \<open>unit_tests.cpp\<close>, run on the
    model: what the authors test of messages, tables and the stack holds of the definitions here.

  \<^bold>\<open>What is shown.\<close> For one connection: the session implements the protocol, requests before
  \<open>LOGIN\<close> do nothing, rounds end. For all interleavings: the threads
  come to rest after finitely many steps, with every line answered unless a thread waits for a lock
  that is lost or belongs to an open transaction; every access to shared data is made by
  the owner of its mutex, locked tables are isolated, unlocked tables are clean, committed
  transactions are serializable, a transaction that meets a locked table is rolled back, the
  process ends only in four ways, every open descriptor belongs to one live thread, and threads wait in a circle only for locks that have been
  lost, in two ways that are described. For the parts: the codec, the stack, the tables and the
  arithmetic against reference definitions, the I/O functions against the byte stream. For the
  clients: what they store, print and add against the server, and how they end against anybody.
  Some theorems state what the code does where it is not what it means to do: the lost locks, the
  four ways to crash, the race of two \<open>CREATE\<close> requests, the key that is created by reading it.

  \<^bold>\<open>Bounds and fuel.\<close> \<open>chat_with_client n\<close> runs at most \<open>n\<close> rounds; a session of \<open>n\<close> lines needs
  \<open>n\<close>, and theory \<open>Network\<close> uses two more than the bytes written, while a round takes at least one.
  The stack is assumed to have fewer than \<open>2 ^ 32\<close> elements in the refinement, the width of its
  counter; what happens at that number is a theorem of \<open>Value_Stack\<close>. The loop of
  \<open>Sleep\<close> is a partial function; a lemma says when it ends. All other loops are total functions.

  \<^bold>\<open>Granularity.\<close> An atomic action is one call on a mutex or one operation on the map or on a
  table. By the theorem on races no two of these operations overlap in time on the same data, so
  that nothing is lost by taking them as atomic. A mutex is taken by one waiting thread, any
  one; a thread that waits has no step.

  \<^bold>\<open>Not modelled.\<close> Memory exhaustion and failures of \<open>pthread_mutex_init\<close>. A response is handed
  to \<open>rio_writen\<close> whole and its result is not looked at (the code ignores it, too); that the client
  has gone is the step \<open>hangup\<close>, the default action of \<open>SIGPIPE\<close>, which the clients' programs are
  modelled without. The line that \<open>quoted_text_is_valid\<close> prints. What destructors free: tables are
  never deleted, and \<open>Server\<close> is destroyed only when it could not listen, with nothing left to
  use it; \<open>close(ssock_fd)\<close> behind the endless loop is not reached. What the system calls do behind
  \<open>System_Calls\<close>; a signal that reaches a unit test from outside, and the standard output of the
  tests failing or being flushed late. What is left of the headers is prototypes.
\<close>

section \<open>Properties of the running server\<close>

text \<open>C2. No data races: a thread about to access a shared place, the map of tables or the contents
  of a table, holds the mutex that protects it, and no other thread is about to access the
  same place.\<close>
theorem race_free:
  assumes "reachable s" and "next_action s i = Some a" and "touches a = Some l" and "j \<noteq> i"
  shows "owner (protects l) (shared s) = Some i \<and> (\<forall>b. next_action s j = Some b \<longrightarrow> touches b \<noteq> Some l)"
proof -
  note inv = reachable_inv [OF assms(1)]
  have own: "owner (protects l) (shared s) = Some i" by (rule access_by_owner [OF inv assms(2,3)])
  with access_by_owner [OF inv, of j _ l] assms(4) show ?thesis by force
qed

lemma race_free_witness:
  "\<exists>s. reachable s \<and> next_action s 1 = Some (Find_name ''t'') \<and> next_action s 2 = Some Lock_tables \<and>
     owner Tables_lock (shared s) = Some 1"
proof -
  let ?s = "connect 2 ''CREATE t\<newline>'' (connect 1 ''CREATE t\<newline>'' boot)"
  have "case drive [1, 1, 2] ?s of None \<Rightarrow> False
    | Some (tr, t) \<Rightarrow> next_action t 1 = Some (Find_name ''t'') \<and> next_action t 2 = Some Lock_tables"
    by code_simp
  then obtain t where t: "reachable t" "next_action t 1 = Some (Find_name ''t'')" "next_action t 2 = Some Lock_tables"
    by (rule run_obtains [OF reachable_two, rotated]) simp_all
  with race_free [OF t(1,2), of Map_of_tables 2] show ?thesis by auto
qed

text \<open>C3. Isolation: as long as a thread keeps a table locked and does not commit or roll it back,
  what the other threads do has no effect on the table. The committed contents stay as they
  were and the uncommitted changes grow by the thread's own writes, so every key it reads has
  the value it wrote last or the one the table had at the start.\<close>
theorem isolation:
  assumes "reachable s" and "path s tr s'" and "heap (shared s) t = Some tb" and "m_mutex tb = Some i"
    and "\<forall>e\<in>set tr. \<not> releases i t e"
  shows "\<exists>tb'. heap (shared s') t = Some tb' \<and> m_mutex tb' = Some i \<and> committed tb' = committed tb \<and>
    pending tb' = pending tb ++ writes (own_ops i t tr) \<and>
    (\<forall>k. fst (table_get k tb') = Inr (overlay (committed tb) (pending tb ++ writes (own_ops i t tr)) k))"
  using path_held_table [OF assms(2) reachable_inv [OF assms(1)] assms(3-5)]
  by (simp add: table_op_eq tbl.run_base tbl.run_over tbl.rd_value)

lemma isolation_witness:
  "\<exists>s tr s' tb tb'. reachable s \<and> path s tr s' \<and> heap (shared s) 0 = Some tb \<and> pending tb = Map.empty \<and>
     own_ops 1 0 tr = [Write ''k'' ''5''] \<and> heap (shared s') 0 = Some tb' \<and> pending tb' = [''k'' \<mapsto> ''5'']"
proof -
  let ?s = "connect 2 ''GET t k\<newline>'' (connect 1 ''CREATE t\<newline>PUSH 5\<newline>SET t k\<newline>'' boot)"
  have "case drive (replicate 15 1) ?s of None \<Rightarrow> False
    | Some (tr, s) \<Rightarrow> (case heap (shared s) 0 of None \<Rightarrow> False
        | Some tb \<Rightarrow> m_mutex tb = Some 1 \<and> RBT.entries (tempMap tb) = []) \<and>
        (case drive [2, 1, 2] s of None \<Rightarrow> False
         | Some (tr', s') \<Rightarrow> own_ops 1 0 tr' = [Write ''k'' ''5''] \<and> list_all (\<lambda>e. \<not> releases 1 0 e) tr')"
    by code_simp
  then obtain s where s: "reachable s" "case heap (shared s) 0 of None \<Rightarrow> False
        | Some tb \<Rightarrow> m_mutex tb = Some 1 \<and> RBT.entries (tempMap tb) = []"
    "case drive [2, 1, 2] s of None \<Rightarrow> False
         | Some (tr', s') \<Rightarrow> own_ops 1 0 tr' = [Write ''k'' ''5''] \<and> list_all (\<lambda>e. \<not> releases 1 0 e) tr'"
    by (rule run_obtains [OF reachable_two, rotated]) (simp_all)
  from s(2) obtain tb where tb: "heap (shared s) 0 = Some tb" "m_mutex tb = Some 1" "RBT.entries (tempMap tb) = []"
    by (auto split: option.splits)
  then have p: "pending tb = Map.empty" using map_of_entries [of "tempMap tb"] by (simp add: pending_def)
  from s(3) obtain tr s' where d: "drive [2, 1, 2] s = Some (tr, s')" "own_ops 1 0 tr = [Write ''k'' ''5'']"
    "\<forall>e\<in>set tr. \<not> releases 1 0 e"
    by (auto split: option.splits simp: list_all_iff)
  from isolation [OF s(1) drive_path [OF d(1)] tb(1,2) d(3)] d(2) p
  obtain tb' where "heap (shared s') 0 = Some tb'" "pending tb' = [''k'' \<mapsto> ''5'']" by auto
  with s(1) drive_path [OF d(1)] tb(1) p d(2) show ?thesis by blast
qed

text \<open>C10. A table that nobody has locked has no uncommitted changes: whoever locks it next sees
  committed values only.\<close>
theorem unlocked_tables_clean:
  assumes "reachable s" and "heap (shared s) t = Some tb" and "m_mutex tb = None"
  shows "pending tb = Map.empty \<and> (\<forall>k. fst (table_get k tb) = Inr (committed tb k))"
  using reachable_inv [OF assms(1)] server_inv_table(2) [OF _ assms(2,3)]
  by (simp add: sys_inv_def table_get_result)

lemma unlocked_tables_clean_witness:
  "\<exists>s tb. reachable s \<and> heap (shared s) 0 = Some tb \<and> committed tb ''k'' = ''5'' \<and> pending tb = Map.empty"
proof -
  let ?s = "connect 1 ''CREATE t\<newline>PUSH 5\<newline>SET t k\<newline>'' boot"
  have "case drive (replicate 18 1) ?s of None \<Rightarrow> False
    | Some (tr, s) \<Rightarrow> (case heap (shared s) 0 of None \<Rightarrow> False
        | Some tb \<Rightarrow> m_mutex tb = None \<and> committed tb ''k'' = ''5'')"
    by code_simp
  then obtain s where s: "reachable s" "case heap (shared s) 0 of None \<Rightarrow> False
        | Some tb \<Rightarrow> m_mutex tb = None \<and> committed tb ''k'' = ''5''"
    by (rule run_obtains [OF reachable_one])
  then obtain tb where tb: "heap (shared s) 0 = Some tb" "m_mutex tb = None" "committed tb ''k'' = ''5''"
    by (auto split: option.splits)
  with unlocked_tables_clean [OF s(1) tb(1,2)] s(1) show ?thesis by blast
qed

text \<open>C5. The server process ends on four failures only: a read past the end of a request with an
  unterminated quote, a division by zero, an operation that fails inside a transaction, and a
  response written to a client that has closed its connection.
  In particular no thread ever uses a pointer that is not a table.\<close>
theorem crash_causes:
  assumes "reachable s" and "crashed s = Some e"
  shows "e = Raise (Out_of_range ''basic_string::at'') \<or> e = Sigfpe \<or>
    e = Raise (FailedTransaction ''operation failed during transaction'') \<or> e = Sigpipe"
  using reachable_inv [OF assms(1)] assms(2) by (simp add: sys_inv_def escapes_def oor_def)

lemma crash_causes_witness:
  "\<exists>s. reachable s \<and> crashed s = Some (Raise (FailedTransaction ''operation failed during transaction''))"
proof -
  have "case drive (replicate 4 1) (connect 1 ''BEGIN\<newline>POP\<newline>'' boot) of None \<Rightarrow> False
    | Some (tr, s) \<Rightarrow> \<exists>e\<in>set_option (crashed s). e \<noteq> Sigfpe \<and> e \<noteq> Sigpipe \<and> e \<noteq> Raise (Out_of_range ''basic_string::at'')"
    by code_simp
  then obtain s where s: "reachable s" "\<exists>e\<in>set_option (crashed s). e \<noteq> Sigfpe \<and> e \<noteq> Sigpipe \<and> e \<noteq> Raise (Out_of_range ''basic_string::at'')"
    by (rule run_obtains [OF reachable_one])
  then obtain e where "crashed s = Some e" "e \<noteq> Sigfpe" "e \<noteq> Sigpipe" "e \<noteq> Raise (Out_of_range ''basic_string::at'')" by auto
  with crash_causes [OF s(1)] s(1) show ?thesis by auto
qed



text \<open>C8. Locks are lost in two ways. A thread that is back at its read, or has ended, never gives
  back a lock that is not one of its transaction's; and a thread that has ended, by
  \<open>BYE\<close>, an error or the end of its input, never gives back any.\<close>
theorem idle_threads_lose_locks:
  assumes "reachable s" and "owner l (shared s) = Some i"
    and "threads s i = Some (Closed c) \<or>
      threads s i = Some (Reading c) \<and> l \<notin> Table_lock ` set (locked_tables c)"
  shows "lost s i l"
  by (rule idle_lost [OF reachable_inv [OF assms(1)] assms(2,3)])

lemma idle_threads_lose_locks_witness:
  "\<exists>s. reachable s \<and> lost s 1 (Table_lock 0)"
proof -
  have "case drive (replicate 14 1) (connect 1 ''CREATE t\<newline>SET t k\<newline>SET t k\<newline>'' boot) of None \<Rightarrow> False
    | Some (tr, s) \<Rightarrow> owner (Table_lock 0) (shared s) = Some 1 \<and>
        (case threads s 1 of Some (Reading c) \<Rightarrow> locked_tables c = [] | _ \<Rightarrow> False)"
    by code_simp
  then obtain s where s: "reachable s" "owner (Table_lock 0) (shared s) = Some 1 \<and>
        (case threads s 1 of Some (Reading c) \<Rightarrow> locked_tables c = [] | _ \<Rightarrow> False)"
    by (rule run_obtains [OF reachable_one])
  then obtain c where "threads s 1 = Some (Reading c)" "locked_tables c = []"
    by (auto split: option.splits thread.splits)
  with idle_threads_lose_locks [OF s(1), of "Table_lock 0" 1 c] s show ?thesis by auto
qed

text \<open>\<open>tables_mutex\<close> never blocks the server: its owner always has a next step.\<close>
lemma tables_mutex_owner_advances:
  assumes "reachable s" and "crashed s = None" and "owner Tables_lock (shared s) = Some i"
  shows "\<exists>e s'. advance i s = Some (e, s')"
  by (rule tables_owner_advances [OF reachable_inv [OF assms(1)] assms(3)])

lemma tables_mutex_owner_advances_witness:
  "\<exists>s e s'. reachable s \<and> owner Tables_lock (shared s) = Some 1 \<and> advance 1 s = Some (e, s')"
proof -
  have "case drive [1, 1, 2] (connect 2 ''CREATE t\<newline>'' (connect 1 ''CREATE t\<newline>'' boot)) of None \<Rightarrow> False
    | Some (tr, s) \<Rightarrow> owner Tables_lock (shared s) = Some 1 \<and> crashed s = None"
    by code_simp
  then obtain s where s: "reachable s" "owner Tables_lock (shared s) = Some 1 \<and> crashed s = None"
    by (rule run_obtains [OF reachable_two, rotated]) simp_all
  then obtain e s' where "advance 1 s = Some (e, s')" using tables_mutex_owner_advances [OF s(1), of 1] by auto
  with s show ?thesis by metis
qed

text \<open>C11. The data of the server is well formed in every reachable state. The map of tables leads
  from every name to a live table of that name. A connection that waits for its next request
  has a stack whose counter is its length, and its set of locked tables is empty outside a
  transaction and otherwise holds live tables, each once and in order, whose mutexes it owns.\<close>
theorem connections_well_formed:
  assumes "reachable s" and "threads s i = Some (Reading c)"
  shows "(\<forall>n t. RBT.lookup (server_tables (shared s)) n = Some t \<longrightarrow>
      (\<exists>tb. heap (shared s) t = Some tb \<and> m_name tb = n)) \<and>
    total (client_stack c) = word_of_nat (length (stk (client_stack c))) \<and>
    (\<not> transaction_mode c \<longrightarrow> locked_tables c = []) \<and>
    sorted (locked_tables c) \<and> distinct (locked_tables c) \<and>
    (\<forall>t\<in>set (locked_tables c). \<exists>tb. heap (shared s) t = Some tb \<and> m_mutex tb = Some i)"
proof -
  note inv = reachable_inv [OF assms(1)]
  obtain h where h: "tracked i s h" using inv unfolding sys_inv_def by blast
  obtain H K D L where "h = (H, K, D, L)" by (cases h) auto
  with h assms(2) have c: "conn_inv c (H, K, D, L)" and a: "agrees i (shared s) (H, K, D, L)"
    by (simp_all add: tracked_def)
  have "\<exists>tb. heap (shared s) t = Some tb \<and> m_mutex tb = Some i" if "t \<in> set (locked_tables c)" for t
  proof -
    have "Table_lock t \<in> holds i (shared s)" using that c a by (auto simp: conn_inv_def agrees_def)
    then show ?thesis by (auto simp: holds_def split: option.splits)
  qed
  with inv c show ?thesis
    by (auto simp: sys_inv_def server_inv_def conn_inv_def short_stack_def stack_ok_def)
qed

lemma connections_well_formed_witness:
  "\<exists>s c. reachable s \<and> threads s 1 = Some (Reading c) \<and> locked_tables c = [0] \<and>
     (\<exists>tb. heap (shared s) 0 = Some tb \<and> m_mutex tb = Some 1)"
proof -
  have "case drive (replicate 17 1) (connect 1 ''CREATE t\<newline>BEGIN\<newline>GET t k\<newline>'' boot) of None \<Rightarrow> False
    | Some (tr, s) \<Rightarrow> (case threads s 1 of Some (Reading c) \<Rightarrow> locked_tables c = [0] | _ \<Rightarrow> False)"
    by code_simp
  then obtain s where s: "reachable s"
    "case threads s 1 of Some (Reading c) \<Rightarrow> locked_tables c = [0] | _ \<Rightarrow> False"
    by (rule run_obtains [OF reachable_one])
  then obtain c where c: "threads s 1 = Some (Reading c)" "locked_tables c = [0]"
    by (auto split: option.splits thread.splits)
  with connections_well_formed [OF s(1) c(1)] s(1) show ?thesis by auto
qed


end
